theory Spec2Isabelle
  imports Complex_Main "HOL-Library.Multiset" "HOL-Library.Word" "HOL-Library.Signed_Division"
    "HOL-Library.Log_Nat"
begin

section \<open>Vectors and panics\<close>

text \<open>
  The Go code works on \<open>float64\<close>. The development reads every \<open>float64\<close> as a real
  number, that is, it verifies the algorithms in exact arithmetic; rounding, infinities
  and NaN are outside the model.
\<close>

record V2 =
  X :: real
  Y :: real

record V3 =
  X :: real
  Y :: real
  Z :: real

text \<open>
  A Go panic ends the call without a value. The first five constructors are the panics
  the code raises itself; the others are run-time panics of Go: an index or a slice
  expression outside a slice, \<open>make\<close> with a negative length, a send on a closed
  channel, and closing a nil or a closed channel.
\<close>

datatype panic =
    BadSizes
  | BadValues
  | ZeroDiag
  | ZeroDenom
  | TooFewKnots
  | IndexOutOfRange
  | MakeNegativeLen
  | SendOnClosedChannel
  | CloseOfNilChannel
  | CloseOfClosedChannel

section \<open>The tridiagonal solver\<close>

text \<open>
  The elimination loop \<open>for i := 1; i < n; i++\<close> of \<open>TriDiagonal\<close>, with the two
  slices \<open>cp\<close> and \<open>x\<close> passed along.
\<close>

function elimination :: "V3 list \<Rightarrow> real list \<Rightarrow> nat \<Rightarrow> real list \<Rightarrow> real list
    \<Rightarrow> panic + (real list \<times> real list)" where
  "elimination m d i cp x =
     (if i < length m then
        (let denom = V3.Y (m ! i) - V3.X (m ! i) * cp ! (i - 1) in
         if denom = 0 then Inl ZeroDenom
         else elimination m d (i + 1)
                (cp[i := V3.Z (m ! i) / denom])
                (x[i := (d ! i - V3.X (m ! i) * x ! (i - 1)) / denom]))
      else Inr (cp, x))"
  by pat_completeness auto
termination
  by (relation "measure (\<lambda>(m, d, i, cp, x). length m - i)") auto

declare elimination.simps [simp del]

text \<open>
  The back substitution loop \<open>for i := n - 2; i >= 0; i--\<close>. The counter of the model
  is \<open>i + 1\<close>, so that it stops at \<open>0\<close> where the Go counter becomes negative.
\<close>

fun back_substitution :: "real list \<Rightarrow> real list \<Rightarrow> nat \<Rightarrow> real list" where
  "back_substitution cp x 0 = x"
| "back_substitution cp x (Suc i) =
     back_substitution cp (x[i := x ! i - cp ! i * x ! (i + 1)]) i"

definition TriDiagonal :: "V3 list \<Rightarrow> real list \<Rightarrow> panic + real list" where
  "TriDiagonal m d =
     (let n = length m in
      if length d \<noteq> n then Inl BadSizes
      else if n = 0 then Inl IndexOutOfRange
      else if V3.X (m ! 0) \<noteq> 0 \<or> V3.Z (m ! (n - 1)) \<noteq> 0 then Inl BadValues
      else if V3.Y (m ! 0) = 0 then Inl ZeroDiag
      else
        (case elimination m d 1
                ((replicate n 0)[0 := V3.Z (m ! 0) / V3.Y (m ! 0)])
                ((replicate n 0)[0 := d ! 0 / V3.Y (m ! 0)]) of
           Inl e \<Rightarrow> Inl e
         | Inr (cp, x) \<Rightarrow> Inr (back_substitution cp x (n - 1))))"

subsection \<open>The contract of the solver\<close>

text \<open>
  The quantities the specification of the solver speaks of, written from its words:
  \<open>c'[0] = super[0] / diag[0]\<close>, the denominator \<open>diag[i] - sub[i] * c'[i-1]\<close> of
  row \<open>i \<ge> 1\<close>, \<open>c'[i] = super[i] / denom\<close>, and the eliminated right-hand side.
\<close>

fun cprime :: "V3 list \<Rightarrow> nat \<Rightarrow> real" where
  "cprime m 0 = V3.Z (m ! 0) / V3.Y (m ! 0)"
| "cprime m (Suc i) =
     V3.Z (m ! Suc i) / (V3.Y (m ! Suc i) - V3.X (m ! Suc i) * cprime m i)"

definition denominator :: "V3 list \<Rightarrow> nat \<Rightarrow> real" where
  "denominator m i = V3.Y (m ! i) - V3.X (m ! i) * cprime m (i - 1)"

fun dprime :: "V3 list \<Rightarrow> real list \<Rightarrow> nat \<Rightarrow> real" where
  "dprime m d 0 = d ! 0 / V3.Y (m ! 0)"
| "dprime m d (Suc i) =
     (d ! Suc i - V3.X (m ! Suc i) * dprime m d i) / denominator m (Suc i)"

text \<open>
  Row \<open>i\<close> of the system \<open>m.x = d\<close>, with \<open>x[-1]\<close> and \<open>x[n]\<close> read as \<open>0\<close>.
\<close>

definition row_holds :: "V3 list \<Rightarrow> real list \<Rightarrow> real list \<Rightarrow> nat \<Rightarrow> bool" where
  "row_holds m d x i \<longleftrightarrow>
     V3.X (m ! i) * (if i = 0 then 0 else x ! (i - 1))
       + V3.Y (m ! i) * x ! i
       + V3.Z (m ! i) * (if i + 1 = length m then 0 else x ! (i + 1)) = d ! i"

text \<open>
  The inputs the solver accepts: a system with at least one row, a right-hand side of
  the same length, the two unused corner entries zero, a nonzero first diagonal entry
  and no zero denominator.
\<close>

definition well_posed :: "V3 list \<Rightarrow> real list \<Rightarrow> bool" where
  "well_posed m d \<longleftrightarrow>
     m \<noteq> [] \<and> length d = length m \<and> V3.X (m ! 0) = 0 \<and> V3.Z (m ! (length m - 1)) = 0 \<and>
     V3.Y (m ! 0) \<noteq> 0 \<and> (\<forall>i. 1 \<le> i \<and> i < length m \<longrightarrow> denominator m i \<noteq> 0)"

text \<open>
  The failure conditions the specification lists. A condition on an entry of \<open>m\<close> holds
  only where the entry exists.
\<close>

definition rejected :: "V3 list \<Rightarrow> real list \<Rightarrow> bool" where
  "rejected m d \<longleftrightarrow>
     length m \<noteq> length d \<or>
     (m \<noteq> [] \<and>
       (V3.X (m ! 0) \<noteq> 0 \<or> V3.Z (m ! (length m - 1)) \<noteq> 0 \<or> V3.Y (m ! 0) = 0 \<or>
        (\<exists>i. 1 \<le> i \<and> i < length m \<and> denominator m i = 0)))"

section \<open>The solver in the arithmetic of the program\<close>

text \<open>
  The definitions above read \<open>float64\<close> as real numbers with exact operations. Those
  of this section keep the rounding of the program: a finite \<open>float64\<close> is read as the
  real number it denotes, and every \<open>+\<close>, \<open>-\<close>, \<open>*\<close> and \<open>/\<close> of the code is the exact
  operation followed by the rounding \<open>fl\<close>, in the order in which Go evaluates the
  expression (no fused multiply-add, as on amd64). With the identity for \<open>fl\<close> they are
  the exact definitions. Infinities, NaN and subnormal numbers are outside this model.
\<close>

text \<open>
  Modelled from the spec: the rounding of IEEE 754 binary64, which is part of Go and
  not of the sources at hand. A nonzero real \<open>x\<close> with \<open>2^e \<le> |x| < 2^(e+1)\<close> is
  rounded to the nearest multiple of \<open>2^(e-52)\<close>, a tie to the even multiple.
\<close>

definition round_half_even :: "real \<Rightarrow> int" where
  "round_half_even y =
     (let n = \<lfloor>y\<rfloor>; r = y - of_int n
      in if r < 1 / 2 then n else if 1 / 2 < r then n + 1
         else if even n then n else n + 1)"

definition exponent2 :: "real \<Rightarrow> int" where
  "exponent2 x = (if 1 \<le> x then bitlen \<lfloor>x\<rfloor> - 1 else - bitlen (\<lceil>1 / x\<rceil> - 1))"

definition round64 :: "real \<Rightarrow> real" where
  "round64 x =
     (if x = 0 then 0
      else
        (let u = 2 powi (exponent2 \<bar>x\<bar> - 52)
         in sgn x * (of_int (round_half_even (\<bar>x\<bar> / u)) * u)))"

function elimination_fl :: "(real \<Rightarrow> real) \<Rightarrow> V3 list \<Rightarrow> real list \<Rightarrow> nat \<Rightarrow> real list
    \<Rightarrow> real list \<Rightarrow> panic + (real list \<times> real list)" where
  "elimination_fl fl m d i cp x =
     (if i < length m then
        (let denom = fl (V3.Y (m ! i) - fl (V3.X (m ! i) * cp ! (i - 1))) in
         if denom = 0 then Inl ZeroDenom
         else elimination_fl fl m d (i + 1)
                (cp[i := fl (V3.Z (m ! i) / denom)])
                (x[i := fl (fl (d ! i - fl (V3.X (m ! i) * x ! (i - 1))) / denom)]))
      else Inr (cp, x))"
  by pat_completeness auto
termination
  by (relation "measure (\<lambda>(fl, m, d, i, cp, x). length m - i)") auto

declare elimination_fl.simps [simp del]

fun back_substitution_fl :: "(real \<Rightarrow> real) \<Rightarrow> real list \<Rightarrow> real list \<Rightarrow> nat \<Rightarrow> real list" where
  "back_substitution_fl fl cp x 0 = x"
| "back_substitution_fl fl cp x (Suc i) =
     back_substitution_fl fl cp (x[i := fl (x ! i - fl (cp ! i * x ! (i + 1)))]) i"

definition TriDiagonal_fl :: "(real \<Rightarrow> real) \<Rightarrow> V3 list \<Rightarrow> real list \<Rightarrow> panic + real list" where
  "TriDiagonal_fl fl m d =
     (let n = length m in
      if length d \<noteq> n then Inl BadSizes
      else if n = 0 then Inl IndexOutOfRange
      else if V3.X (m ! 0) \<noteq> 0 \<or> V3.Z (m ! (n - 1)) \<noteq> 0 then Inl BadValues
      else if V3.Y (m ! 0) = 0 then Inl ZeroDiag
      else
        (case elimination_fl fl m d 1
                ((replicate n 0)[0 := fl (V3.Z (m ! 0) / V3.Y (m ! 0))])
                ((replicate n 0)[0 := fl (d ! 0 / V3.Y (m ! 0))]) of
           Inl e \<Rightarrow> Inl e
         | Inr (cp, x) \<Rightarrow> Inr (back_substitution_fl fl cp x (n - 1))))"

text \<open>
  The quantities of the contract as the program computes them: \<open>c'\<close>, the denominator
  of row \<open>i \<ge> 1\<close> and the eliminated right-hand side, each operation rounded.
\<close>

fun cprime_fl :: "(real \<Rightarrow> real) \<Rightarrow> V3 list \<Rightarrow> nat \<Rightarrow> real" where
  "cprime_fl fl m 0 = fl (V3.Z (m ! 0) / V3.Y (m ! 0))"
| "cprime_fl fl m (Suc i) =
     fl (V3.Z (m ! Suc i) / fl (V3.Y (m ! Suc i) - fl (V3.X (m ! Suc i) * cprime_fl fl m i)))"

definition denominator_fl :: "(real \<Rightarrow> real) \<Rightarrow> V3 list \<Rightarrow> nat \<Rightarrow> real" where
  "denominator_fl fl m i = fl (V3.Y (m ! i) - fl (V3.X (m ! i) * cprime_fl fl m (i - 1)))"

fun dprime_fl :: "(real \<Rightarrow> real) \<Rightarrow> V3 list \<Rightarrow> real list \<Rightarrow> nat \<Rightarrow> real" where
  "dprime_fl fl m d 0 = fl (d ! 0 / V3.Y (m ! 0))"
| "dprime_fl fl m d (Suc i) =
     fl (fl (d ! Suc i - fl (V3.X (m ! Suc i) * dprime_fl fl m d i)) / denominator_fl fl m (Suc i))"

text \<open>
  The failure conditions the specification lists, the denominators being those the
  program computes. A condition on an entry of \<open>m\<close> holds only where the entry exists.
\<close>

definition rejected_fl :: "(real \<Rightarrow> real) \<Rightarrow> V3 list \<Rightarrow> real list \<Rightarrow> bool" where
  "rejected_fl fl m d \<longleftrightarrow>
     length m \<noteq> length d \<or>
     (m \<noteq> [] \<and>
       (V3.X (m ! 0) \<noteq> 0 \<or> V3.Z (m ! (length m - 1)) \<noteq> 0 \<or> V3.Y (m ! 0) = 0 \<or>
        (\<exists>i. 1 \<le> i \<and> i < length m \<and> denominator_fl fl m i = 0)))"

section \<open>Cubic polynomials and spline segments\<close>

record CubicPolynomial =
  a :: real
  b :: real
  c :: real
  d :: real

definition CubicPolynomial_f0 :: "CubicPolynomial \<Rightarrow> real \<Rightarrow> real" where
  "CubicPolynomial_f0 p t = a p + t * (b p + t * (c p + d p * t))"

definition CubicPolynomial_f1 :: "CubicPolynomial \<Rightarrow> real \<Rightarrow> real" where
  "CubicPolynomial_f1 p t = b p + t * (2 * c p + 3 * d p * t)"

definition CubicPolynomial_f2 :: "CubicPolynomial \<Rightarrow> real \<Rightarrow> real" where
  "CubicPolynomial_f2 p t = 2 * c p + 6 * d p * t"

text \<open>\<open>p.Set(y0, y1, D0, D1)\<close> overwrites all four coefficients of \<open>p\<close>.\<close>

definition CubicPolynomial_Set :: "real \<Rightarrow> real \<Rightarrow> real \<Rightarrow> real \<Rightarrow> CubicPolynomial" where
  "CubicPolynomial_Set y0 y1 D0 D1 =
     \<lparr>a = y0, b = D0, c = 3 * (y1 - y0) - 2 * D0 - D1, d = 2 * (y0 - y1) + D0 + D1\<rparr>"

text \<open>
  \<open>f1_zeroes\<close> prints its argument and returns the roots found by \<open>quadratic\<close>, a
  function of the package that is not part of the sources at hand: it is a parameter
  here. The printing has no effect on the value.
\<close>

definition CubicPolynomial_f1_zeroes ::
  "(real \<Rightarrow> real \<Rightarrow> real \<Rightarrow> real list) \<Rightarrow> CubicPolynomial \<Rightarrow> real list" where
  "CubicPolynomial_f1_zeroes quadratic p = quadratic (3 * d p) (2 * c p) (b p)"

record CubicSpline =
  idx :: int
  p0 :: V2
  p1 :: V2
  px :: CubicPolynomial
  py :: CubicPolynomial

definition CubicSpline_f0 :: "CubicSpline \<Rightarrow> real \<Rightarrow> V2" where
  "CubicSpline_f0 s t = \<lparr>V2.X = CubicPolynomial_f0 (px s) t, V2.Y = CubicPolynomial_f0 (py s) t\<rparr>"

definition CubicSpline_f1 :: "CubicSpline \<Rightarrow> real \<Rightarrow> V2" where
  "CubicSpline_f1 s t = \<lparr>V2.X = CubicPolynomial_f1 (px s) t, V2.Y = CubicPolynomial_f1 (py s) t\<rparr>"

definition CubicSpline_f2 :: "CubicSpline \<Rightarrow> real \<Rightarrow> V2" where
  "CubicSpline_f2 s t = \<lparr>V2.X = CubicPolynomial_f2 (px s) t, V2.Y = CubicPolynomial_f2 (py s) t\<rparr>"

subsection \<open>Bounding boxes\<close>

text \<open>
  Modelled from the spec: \<open>Clamp\<close>, \<open>Box2\<close>, the minimum and maximum of a set of
  points and the extension of a box by another are helpers of the package outside the
  sources at hand. The specification describes a box as a pair of corners, the box of a
  segment as the union of its end points and of the curve at every critical \<open>t\<close>
  clamped to \<open>[0, 1]\<close>, and the box of the curve as the union of the boxes of its
  segments. The point set of \<open>BoundingBox\<close> starts with \<open>s.p0\<close>, which the model
  hands over apart from the points that follow it.
\<close>

definition Clamp :: "real \<Rightarrow> real \<Rightarrow> real \<Rightarrow> real" where
  "Clamp x lo hi = (if x < lo then lo else if x > hi then hi else x)"

record Box2 =
  Box2_Min :: V2
  Box2_Max :: V2

definition V2_Min :: "V2 \<Rightarrow> V2 \<Rightarrow> V2" where
  "V2_Min u v = \<lparr>V2.X = min (V2.X u) (V2.X v), V2.Y = min (V2.Y u) (V2.Y v)\<rparr>"

definition V2_Max :: "V2 \<Rightarrow> V2 \<Rightarrow> V2" where
  "V2_Max u v = \<lparr>V2.X = max (V2.X u) (V2.X v), V2.Y = max (V2.Y u) (V2.Y v)\<rparr>"

definition V2Set_Min :: "V2 \<Rightarrow> V2 list \<Rightarrow> V2" where
  "V2Set_Min v vs = fold (\<lambda>w acc. V2_Min acc w) vs v"

definition V2Set_Max :: "V2 \<Rightarrow> V2 list \<Rightarrow> V2" where
  "V2Set_Max v vs = fold (\<lambda>w acc. V2_Max acc w) vs v"

definition Box2_Extend :: "Box2 \<Rightarrow> Box2 \<Rightarrow> Box2" where
  "Box2_Extend u v =
     \<lparr>Box2_Min = V2_Min (Box2_Min u) (Box2_Min v), Box2_Max = V2_Max (Box2_Max u) (Box2_Max v)\<rparr>"

definition CubicSpline_BoundingBox ::
  "(real \<Rightarrow> real \<Rightarrow> real \<Rightarrow> real list) \<Rightarrow> CubicSpline \<Rightarrow> Box2" where
  "CubicSpline_BoundingBox quadratic s =
     (let p = [p1 s];
          p = p @ map (\<lambda>t. CubicSpline_f0 s (Clamp t 0 1))
                    (CubicPolynomial_f1_zeroes quadratic (px s));
          p = p @ map (\<lambda>t. CubicSpline_f0 s (Clamp t 0 1))
                    (CubicPolynomial_f1_zeroes quadratic (py s))
      in \<lparr>Box2_Min = V2Set_Min (p0 s) p, Box2_Max = V2Set_Max (p0 s) p\<rparr>)"

section \<open>The spline curve\<close>

record CubicSplineSDF2 =
  spline :: "CubicSpline list"
  bb :: Box2

text \<open>
  Go's conversion \<open>int(t)\<close> of a \<open>float64\<close> drops the fraction, towards zero.
\<close>

definition go_int :: "real \<Rightarrow> int" where
  "go_int t = (if 0 \<le> t then \<lfloor>t\<rfloor> else \<lceil>t\<rceil>)"

text \<open>
  \<open>Find\<close> returns the address of \<open>s.spline[i]\<close>; the model returns the segment, or
  the panic of the index expression where \<open>i\<close> is outside the slice.
\<close>

definition Find :: "CubicSplineSDF2 \<Rightarrow> real \<Rightarrow> panic + (CubicSpline \<times> real)" where
  "Find s t =
     (let n = int (length (spline s));
          t = Clamp t 0 (real_of_int n);
          i = go_int t;
          t = t - real_of_int i;
          (i, t) = (if i = n then (i - 1, 1) else (i, t))
      in if 0 \<le> i \<and> i < n then Inr (spline s ! nat i, t) else Inl IndexOutOfRange)"


text \<open>
  The first loop of \<open>CubicSpline2D\<close>, \<open>for i := 1; i < n-1; i++\<close>, fills the interior
  rows of the matrix and of the two right-hand sides.
\<close>

function interior_rows :: "V2 list \<Rightarrow> nat \<Rightarrow> V3 list \<Rightarrow> real list \<Rightarrow> real list
    \<Rightarrow> V3 list \<times> real list \<times> real list" where
  "interior_rows knot i m dx dy =
     (if i < length knot - 1 then
        interior_rows knot (i + 1)
          (m[i := \<lparr>X = 1, Y = 4, Z = 1\<rparr>])
          (dx[i := 3 * (V2.X (knot ! (i + 1)) - V2.X (knot ! (i - 1)))])
          (dy[i := 3 * (V2.Y (knot ! (i + 1)) - V2.Y (knot ! (i - 1)))])
      else (m, dx, dy))"
  by pat_completeness auto
termination
  by (relation "measure (\<lambda>(knot, i, m, dx, dy). length knot - 1 - i)") auto

declare interior_rows.simps [simp del]

text \<open>
  The second loop, \<open>for i := 0; i < n-1; i++\<close>, sets every field of segment \<open>i\<close>.
\<close>

function segments :: "V2 list \<Rightarrow> real list \<Rightarrow> real list \<Rightarrow> nat \<Rightarrow> CubicSpline list
    \<Rightarrow> CubicSpline list" where
  "segments knot xx xy i sp =
     (if i < length knot - 1 then
        segments knot xx xy (i + 1)
          (sp[i := \<lparr>idx = int i, p0 = knot ! i, p1 = knot ! (i + 1),
                    px = CubicPolynomial_Set (V2.X (knot ! i)) (V2.X (knot ! (i + 1)))
                           (xx ! i) (xx ! (i + 1)),
                    py = CubicPolynomial_Set (V2.Y (knot ! i)) (V2.Y (knot ! (i + 1)))
                           (xy ! i) (xy ! (i + 1))\<rparr>])
      else sp)"
  by pat_completeness auto
termination
  by (relation "measure (\<lambda>(knot, xx, xy, i, sp). length knot - 1 - i)") auto

declare segments.simps [simp del]

text \<open>
  The third loop, \<open>for i := 1; i < n-1; i++\<close>, extends the box of segment \<open>0\<close> by the
  boxes of the other segments.
\<close>

function bounding_boxes :: "(real \<Rightarrow> real \<Rightarrow> real \<Rightarrow> real list) \<Rightarrow> CubicSpline list
    \<Rightarrow> nat \<Rightarrow> nat \<Rightarrow> Box2 \<Rightarrow> Box2" where
  "bounding_boxes quadratic sp n i box =
     (if i < n - 1 then
        bounding_boxes quadratic sp n (i + 1)
          (Box2_Extend box (CubicSpline_BoundingBox quadratic (sp ! i)))
      else box)"
  by pat_completeness auto
termination
  by (relation "measure (\<lambda>(quadratic, sp, n, i, box). n - 1 - i)") auto

declare bounding_boxes.simps [simp del]

definition zero_V2 :: V2 where
  "zero_V2 = \<lparr>V2.X = 0, V2.Y = 0\<rparr>"

definition zero_V3 :: V3 where
  "zero_V3 = \<lparr>X = 0, Y = 0, Z = 0\<rparr>"

definition zero_CubicSpline :: CubicSpline where
  "zero_CubicSpline =
     \<lparr>idx = 0, p0 = zero_V2, p1 = zero_V2,
      px = \<lparr>a = 0, b = 0, c = 0, d = 0\<rparr>, py = \<lparr>a = 0, b = 0, c = 0, d = 0\<rparr>\<rparr>"

text \<open>
  The matrix and the right-hand sides \<open>CubicSpline2D\<close> hands to the solver: the slices
  as \<open>make\<close> creates them, the interior rows, then the two end rows.
\<close>

definition spline_system :: "V2 list \<Rightarrow> V3 list \<times> real list \<times> real list" where
  "spline_system knot =
     (let n = length knot;
          (m, dx, dy) = interior_rows knot 1
                          (replicate n zero_V3) (replicate n 0) (replicate n 0);
          m = m[0 := \<lparr>X = 0, Y = 2, Z = 1\<rparr>];
          dx = dx[0 := 3 * (V2.X (knot ! 1) - V2.X (knot ! 0))];
          dy = dy[0 := 3 * (V2.Y (knot ! 1) - V2.Y (knot ! 0))];
          m = m[n - 1 := \<lparr>X = 1, Y = 2, Z = 0\<rparr>];
          dx = dx[n - 1 := 3 * (V2.X (knot ! (n - 1)) - V2.X (knot ! (n - 2)))];
          dy = dy[n - 1 := 3 * (V2.Y (knot ! (n - 1)) - V2.Y (knot ! (n - 2)))]
      in (m, dx, dy))"

definition CubicSpline2D ::
  "(real \<Rightarrow> real \<Rightarrow> real \<Rightarrow> real list) \<Rightarrow> V2 list \<Rightarrow> panic + CubicSplineSDF2" where
  "CubicSpline2D quadratic knot =
     (if length knot < 2 then Inl TooFewKnots
      else
        (let n = length knot;
             (m, dx, dy) = spline_system knot
         in case TriDiagonal m dx of
              Inl e \<Rightarrow> Inl e
            | Inr xx \<Rightarrow>
               (case TriDiagonal m dy of
                  Inl e \<Rightarrow> Inl e
                | Inr xy \<Rightarrow>
                   (let sp = segments knot xx xy 0 (replicate (n - 1) zero_CubicSpline);
                        box = bounding_boxes quadratic sp n 1
                                (CubicSpline_BoundingBox quadratic (sp ! 0))
                    in Inr \<lparr>spline = sp, bb = box\<rparr>))))"

definition Evaluate :: "CubicSplineSDF2 \<Rightarrow> V2 \<Rightarrow> real" where
  "Evaluate s p = 0"

definition BoundingBox :: "CubicSplineSDF2 \<Rightarrow> Box2" where
  "BoundingBox s = bb s"

section \<open>The curve fitter in the arithmetic of the program\<close>

text \<open>
  The cubic polynomial and \<open>CubicSpline2D\<close> once more, with the rounding \<open>fl\<close> after
  every operation, as for the solver. \<open>a + t*(b + t*(c + d*t))\<close> is evaluated from the
  innermost product outwards, \<open>3*(y1-y0) - 2*D0 - D1\<close> and \<open>2*(y0-y1) + D0 + D1\<close> from
  left to right.
\<close>

definition CubicPolynomial_f0_fl :: "(real \<Rightarrow> real) \<Rightarrow> CubicPolynomial \<Rightarrow> real \<Rightarrow> real" where
  "CubicPolynomial_f0_fl fl p t = fl (a p + fl (t * fl (b p + fl (t * fl (c p + fl (d p * t))))))"

definition CubicPolynomial_Set_fl ::
  "(real \<Rightarrow> real) \<Rightarrow> real \<Rightarrow> real \<Rightarrow> real \<Rightarrow> real \<Rightarrow> CubicPolynomial" where
  "CubicPolynomial_Set_fl fl y0 y1 D0 D1 =
     \<lparr>a = y0, b = D0,
      c = fl (fl (fl (3 * fl (y1 - y0)) - fl (2 * D0)) - D1),
      d = fl (fl (fl (2 * fl (y0 - y1)) + D0) + D1)\<rparr>"

definition CubicSpline_f0_fl :: "(real \<Rightarrow> real) \<Rightarrow> CubicSpline \<Rightarrow> real \<Rightarrow> V2" where
  "CubicSpline_f0_fl fl s t =
     \<lparr>V2.X = CubicPolynomial_f0_fl fl (px s) t, V2.Y = CubicPolynomial_f0_fl fl (py s) t\<rparr>"

definition CubicSpline_BoundingBox_fl ::
  "(real \<Rightarrow> real) \<Rightarrow> (real \<Rightarrow> real \<Rightarrow> real \<Rightarrow> real list) \<Rightarrow> CubicSpline \<Rightarrow> Box2" where
  "CubicSpline_BoundingBox_fl fl quadratic s =
     (let p = [p1 s];
          p = p @ map (\<lambda>t. CubicSpline_f0_fl fl s (Clamp t 0 1))
                    (quadratic (fl (3 * d (px s))) (fl (2 * c (px s))) (b (px s)));
          p = p @ map (\<lambda>t. CubicSpline_f0_fl fl s (Clamp t 0 1))
                    (quadratic (fl (3 * d (py s))) (fl (2 * c (py s))) (b (py s)))
      in \<lparr>Box2_Min = V2Set_Min (p0 s) p, Box2_Max = V2Set_Max (p0 s) p\<rparr>)"

function interior_rows_fl :: "(real \<Rightarrow> real) \<Rightarrow> V2 list \<Rightarrow> nat \<Rightarrow> V3 list \<Rightarrow> real list
    \<Rightarrow> real list \<Rightarrow> V3 list \<times> real list \<times> real list" where
  "interior_rows_fl fl knot i m dx dy =
     (if i < length knot - 1 then
        interior_rows_fl fl knot (i + 1)
          (m[i := \<lparr>X = 1, Y = 4, Z = 1\<rparr>])
          (dx[i := fl (3 * fl (V2.X (knot ! (i + 1)) - V2.X (knot ! (i - 1))))])
          (dy[i := fl (3 * fl (V2.Y (knot ! (i + 1)) - V2.Y (knot ! (i - 1))))])
      else (m, dx, dy))"
  by pat_completeness auto
termination
  by (relation "measure (\<lambda>(fl, knot, i, m, dx, dy). length knot - 1 - i)") auto

declare interior_rows_fl.simps [simp del]

function segments_fl :: "(real \<Rightarrow> real) \<Rightarrow> V2 list \<Rightarrow> real list \<Rightarrow> real list \<Rightarrow> nat
    \<Rightarrow> CubicSpline list \<Rightarrow> CubicSpline list" where
  "segments_fl fl knot xx xy i sp =
     (if i < length knot - 1 then
        segments_fl fl knot xx xy (i + 1)
          (sp[i := \<lparr>idx = int i, p0 = knot ! i, p1 = knot ! (i + 1),
                    px = CubicPolynomial_Set_fl fl (V2.X (knot ! i)) (V2.X (knot ! (i + 1)))
                           (xx ! i) (xx ! (i + 1)),
                    py = CubicPolynomial_Set_fl fl (V2.Y (knot ! i)) (V2.Y (knot ! (i + 1)))
                           (xy ! i) (xy ! (i + 1))\<rparr>])
      else sp)"
  by pat_completeness auto
termination
  by (relation "measure (\<lambda>(fl, knot, xx, xy, i, sp). length knot - 1 - i)") auto

declare segments_fl.simps [simp del]

function bounding_boxes_fl :: "(real \<Rightarrow> real) \<Rightarrow> (real \<Rightarrow> real \<Rightarrow> real \<Rightarrow> real list)
    \<Rightarrow> CubicSpline list \<Rightarrow> nat \<Rightarrow> nat \<Rightarrow> Box2 \<Rightarrow> Box2" where
  "bounding_boxes_fl fl quadratic sp n i box =
     (if i < n - 1 then
        bounding_boxes_fl fl quadratic sp n (i + 1)
          (Box2_Extend box (CubicSpline_BoundingBox_fl fl quadratic (sp ! i)))
      else box)"
  by pat_completeness auto
termination
  by (relation "measure (\<lambda>(fl, quadratic, sp, n, i, box). n - 1 - i)") auto

declare bounding_boxes_fl.simps [simp del]

definition spline_system_fl :: "(real \<Rightarrow> real) \<Rightarrow> V2 list \<Rightarrow> V3 list \<times> real list \<times> real list" where
  "spline_system_fl fl knot =
     (let n = length knot;
          (m, dx, dy) = interior_rows_fl fl knot 1
                          (replicate n zero_V3) (replicate n 0) (replicate n 0);
          m = m[0 := \<lparr>X = 0, Y = 2, Z = 1\<rparr>];
          dx = dx[0 := fl (3 * fl (V2.X (knot ! 1) - V2.X (knot ! 0)))];
          dy = dy[0 := fl (3 * fl (V2.Y (knot ! 1) - V2.Y (knot ! 0)))];
          m = m[n - 1 := \<lparr>X = 1, Y = 2, Z = 0\<rparr>];
          dx = dx[n - 1 := fl (3 * fl (V2.X (knot ! (n - 1)) - V2.X (knot ! (n - 2))))];
          dy = dy[n - 1 := fl (3 * fl (V2.Y (knot ! (n - 1)) - V2.Y (knot ! (n - 2))))]
      in (m, dx, dy))"

definition CubicSpline2D_fl ::
  "(real \<Rightarrow> real) \<Rightarrow> (real \<Rightarrow> real \<Rightarrow> real \<Rightarrow> real list) \<Rightarrow> V2 list
     \<Rightarrow> panic + CubicSplineSDF2" where
  "CubicSpline2D_fl fl quadratic knot =
     (if length knot < 2 then Inl TooFewKnots
      else
        (let n = length knot;
             (m, dx, dy) = spline_system_fl fl knot
         in case TriDiagonal_fl fl m dx of
              Inl e \<Rightarrow> Inl e
            | Inr xx \<Rightarrow>
               (case TriDiagonal_fl fl m dy of
                  Inl e \<Rightarrow> Inl e
                | Inr xy \<Rightarrow>
                   (let sp = segments_fl fl knot xx xy 0 (replicate (n - 1) zero_CubicSpline);
                        box = bounding_boxes_fl fl quadratic sp n 1
                                (CubicSpline_BoundingBox_fl fl quadratic (sp ! 0))
                    in Inr \<lparr>spline = sp, bb = box\<rparr>))))"

section \<open>The renderer\<close>

subsection \<open>Colours, rasters and channels\<close>

text \<open>
  Modelled from the spec: \<open>color.RGBA\<close>, \<open>image.RGBA\<close> and channels belong to Go and
  its standard library, not to the sources at hand. A colour is four bytes. A raster is
  the byte slice \<open>Pix\<close> with four bytes per pixel, the distance \<open>Stride\<close> between two
  rows and the rectangle \<open>Rect\<close> of its pixel coordinates, here its two corners.
  \<open>SetRGBA\<close> ignores a point outside the rectangle and writes the four bytes at
  \<open>PixOffset\<close> otherwise; taking four bytes outside \<open>Pix\<close> is a panic.
\<close>

type_synonym uint8 = "8 word"

record RGBA =
  R :: uint8
  G :: uint8
  B :: uint8
  A :: uint8

type_synonym V2i = "int \<times> int"

record image_RGBA =
  Pix :: "uint8 list"
  Stride :: int
  Rect_Min :: V2i
  Rect_Max :: V2i

definition Bounds_Size :: "image_RGBA \<Rightarrow> V2i" where
  "Bounds_Size p =
     (fst (Rect_Max p) - fst (Rect_Min p), snd (Rect_Max p) - snd (Rect_Min p))"

definition Point_In :: "int \<Rightarrow> int \<Rightarrow> image_RGBA \<Rightarrow> bool" where
  "Point_In x y p \<longleftrightarrow>
     fst (Rect_Min p) \<le> x \<and> x < fst (Rect_Max p) \<and>
     snd (Rect_Min p) \<le> y \<and> y < snd (Rect_Max p)"

definition PixOffset :: "image_RGBA \<Rightarrow> int \<Rightarrow> int \<Rightarrow> int" where
  "PixOffset p x y = (y - snd (Rect_Min p)) * Stride p + (x - fst (Rect_Min p)) * 4"

definition SetRGBA :: "image_RGBA \<Rightarrow> int \<Rightarrow> int \<Rightarrow> RGBA \<Rightarrow> panic + image_RGBA" where
  "SetRGBA p x y col =
     (if \<not> Point_In x y p then Inr p
      else
        (let i = PixOffset p x y in
         if i < 0 \<or> int (length (Pix p)) < i + 4 then Inl IndexOutOfRange
         else Inr (p\<lparr>Pix := (Pix p)[nat i := R col, nat i + 1 := G col,
                                    nat i + 2 := B col, nat i + 3 := A col]\<rparr>)))"

definition RGBAAt :: "image_RGBA \<Rightarrow> int \<Rightarrow> int \<Rightarrow> panic + RGBA" where
  "RGBAAt p x y =
     (if \<not> Point_In x y p then Inr \<lparr>R = 0, G = 0, B = 0, A = 0\<rparr>
      else
        (let i = PixOffset p x y in
         if i < 0 \<or> int (length (Pix p)) < i + 4 then Inl IndexOutOfRange
         else Inr \<lparr>R = Pix p ! nat i, G = Pix p ! (nat i + 1),
                   B = Pix p ! (nat i + 2), A = Pix p ! (nat i + 3)\<rparr>))"

text \<open>
  A channel of the model is the sequence of the values sent on it so far and whether it
  has been closed; \<open>None\<close> is the nil channel. Sending on a closed channel and closing a
  nil or a closed channel are panics. A receiver is taken to be there for every send.
\<close>

record 'v chan =
  chan_sent :: "'v list"
  chan_closed :: bool

definition chan_send :: "'v chan \<Rightarrow> 'v \<Rightarrow> panic + 'v chan" where
  "chan_send ch v =
     (if chan_closed ch then Inl SendOnClosedChannel
      else Inr (ch\<lparr>chan_sent := chan_sent ch @ [v]\<rparr>))"

definition chan_close :: "'v chan option \<Rightarrow> panic + 'v chan option" where
  "chan_close ch =
     (case ch of
        None \<Rightarrow> Inl CloseOfNilChannel
      | Some it \<Rightarrow> if chan_closed it then Inl CloseOfClosedChannel
                   else Inr (Some (it\<lparr>chan_closed := True\<rparr>)))"

text \<open>
  The error of a context that is done. \<open>ctx n\<close> is what the check made after \<open>n\<close>
  pixels sees: \<open>None\<close> while the pass has not been cancelled.
\<close>

datatype error = Canceled | DeadlineExceeded

subsection \<open>The renderer and its pixel jobs\<close>

record 'sdf renderer3 =
  s :: 'sdf
  pixelsRand :: "int list"

definition newDevRenderer3 :: "'sdf \<Rightarrow> 'sdf renderer3" where
  "newDevRenderer3 shape = \<lparr>s = shape, pixelsRand = []\<rparr>"

record 'm44 pixelRender =
  pixel :: V2i
  bounds :: V2i
  camPos :: V3
  camDir :: V3
  camViewMatrix :: 'm44
  camFov :: V2
  rendered :: RGBA

text \<open>
  \<open>samplePixel\<close> builds the ray of the job with vector operations of package \<open>sdf\<close> and
  hands it to \<open>sdf.Raycast3\<close>; neither is part of the sources at hand. The parameter
  \<open>raycast\<close> stands for both: it gives the distance \<open>t\<close> and the number of steps that
  \<open>Raycast3\<close> returns for the shape and the job.
\<close>

definition samplePixel ::
  "('sdf \<Rightarrow> 'm44 pixelRender \<Rightarrow> real \<times> int) \<Rightarrow> 'sdf renderer3 \<Rightarrow> 'm44 pixelRender \<Rightarrow> RGBA" where
  "samplePixel raycast r job =
     (let maxSteps = 1000;
          (t, steps) = raycast (s r) job
      in if t \<ge> 0 then \<lparr>R = 0, G = 0, B = 255, A = 255\<rparr>
         else if steps = maxSteps then \<lparr>R = 150, G = 50, B = 50, A = 255\<rparr>
         else \<lparr>R = 150, G = 50, B = 50, A = 255\<rparr>)"

subsection \<open>The start of a pass\<close>

text \<open>The first loop of \<open>Render\<close>, \<open>for i := 3; i < len(fullRender.Pix); i += 4\<close>.\<close>

function set_alpha :: "nat \<Rightarrow> uint8 list \<Rightarrow> uint8 list" where
  "set_alpha i pix = (if i < length pix then set_alpha (i + 4) (pix[i := 255]) else pix)"
  by pat_completeness auto
termination
  by (relation "measure (\<lambda>(i, pix). length pix - i)") auto

declare set_alpha.simps [simp del]

text \<open>The loop \<open>for i := 0; i < pixelCount; i++\<close> that fills the new slice.\<close>

function fill_indices :: "int \<Rightarrow> nat \<Rightarrow> int list \<Rightarrow> int list" where
  "fill_indices pixelCount i xs =
     (if int i < pixelCount then fill_indices pixelCount (i + 1) (xs[i := int i]) else xs)"
  by pat_completeness auto
termination
  by (relation "measure (\<lambda>(pixelCount, i, xs). nat pixelCount - i)") auto

declare fill_indices.simps [simp del]

text \<open>
  Modelled from the spec: \<open>rand.Shuffle(n, swap)\<close> of the Go standard library calls
  \<open>swap(i, j)\<close> for \<open>i\<close> from \<open>n - 1\<close> down to \<open>1\<close>, with \<open>j\<close> drawn from \<open>0..i\<close>. The
  draws are the parameter \<open>rnd\<close>, reduced to that range. The swap is the one
  \<open>Render\<close> passes, the exchange of two entries of \<open>pixelsRand\<close>.
\<close>

definition swap :: "int list \<Rightarrow> nat \<Rightarrow> nat \<Rightarrow> int list" where
  "swap xs i j = xs[i := xs ! j, j := xs ! i]"

fun shuffle_from :: "(nat \<Rightarrow> nat) \<Rightarrow> nat \<Rightarrow> int list \<Rightarrow> int list" where
  "shuffle_from rnd 0 xs = xs"
| "shuffle_from rnd (Suc i) xs =
     shuffle_from rnd i (swap xs (Suc i) (rnd (Suc i) mod (Suc i + 1)))"

definition Shuffle :: "(nat \<Rightarrow> nat) \<Rightarrow> nat \<Rightarrow> int list \<Rightarrow> int list" where
  "Shuffle rnd n xs = shuffle_from rnd (n - 1) xs"

text \<open>
  The update of the cached order at the start of \<open>Render\<close>. \<open>make\<close> panics on a
  negative length.
\<close>

definition update_pixelsRand ::
  "(nat \<Rightarrow> nat) \<Rightarrow> int \<Rightarrow> 'sdf renderer3 \<Rightarrow> panic + 'sdf renderer3" where
  "update_pixelsRand rnd pixelCount r =
     (if pixelCount \<noteq> int (length (pixelsRand r)) then
        (if pixelCount < 0 then Inl MakeNegativeLen
         else
           (let fresh = fill_indices pixelCount 0 (replicate (nat pixelCount) 0)
            in Inr (r\<lparr>pixelsRand := Shuffle rnd (length fresh) fresh\<rparr>)))
      else Inr r)"

subsection \<open>Jobs, workers and the collector\<close>

text \<open>
  The camera of a pass (its position, direction, view matrix and field of view) is
  computed from the render state and the size of the raster with operations of package
  \<open>sdf\<close> outside the sources at hand; the four values are a parameter of the model.
  The work generator makes one job for every entry of \<open>pixelsRand\<close>, in that order.
  Go's \<open>%\<close> and \<open>/\<close> on integers round towards zero.
\<close>

definition jobs :: "V3 \<times> V3 \<times> 'm44 \<times> V2 \<Rightarrow> V2i \<Rightarrow> int list \<Rightarrow> 'm44 pixelRender list" where
  "jobs cam boundsSize pr =
     map (\<lambda>randPixelIndex.
            \<lparr>pixel = (randPixelIndex smod fst boundsSize, randPixelIndex sdiv fst boundsSize),
              bounds = boundsSize,
              camPos = fst cam, camDir = fst (snd cam),
              camViewMatrix = fst (snd (snd cam)), camFov = snd (snd (snd cam)),
              rendered = \<lparr>R = 0, G = 0, B = 0, A = 0\<rparr>\<rparr>) pr"

text \<open>A worker takes a job, samples its pixel and hands the job on.\<close>

definition work ::
  "('sdf \<Rightarrow> 'm44 pixelRender \<Rightarrow> real \<times> int) \<Rightarrow> 'sdf renderer3 \<Rightarrow> 'm44 pixelRender
     \<Rightarrow> 'm44 pixelRender" where
  "work raycast r job = job\<lparr>rendered := samplePixel raycast r job\<rparr>"

text \<open>
  The loop of the collector over the results in the order in which they arrive. The
  two mutexes order the accesses of other goroutines to the raster and to the state;
  they do not change a value and are left out. What is sent on \<open>partialRender\<close> is the
  address of the raster; the model records the raster as it is at the send.
\<close>

definition pixelBatch :: nat where
  "pixelBatch = 100"

fun collector :: "(nat \<Rightarrow> error option) \<Rightarrow> 'm44 pixelRender list \<Rightarrow> nat \<Rightarrow> image_RGBA
    \<Rightarrow> image_RGBA chan option \<Rightarrow> panic + (image_RGBA \<times> image_RGBA chan option \<times> error option)" where
  "collector ctx [] pixelNum fullRender partialRender = Inr (fullRender, partialRender, None)"
| "collector ctx (renderedPixel # rest) pixelNum fullRender partialRender =
     (case SetRGBA fullRender (fst (pixel renderedPixel)) (snd (pixel renderedPixel))
             (rendered renderedPixel) of
        Inl e \<Rightarrow> Inl e
      | Inr fullRender \<Rightarrow>
         (let pixelNum = pixelNum + 1 in
          if pixelNum mod pixelBatch = 0 then
            (case ctx pixelNum of
               Some err \<Rightarrow> Inr (fullRender, partialRender, Some err)
             | None \<Rightarrow>
                (case partialRender of
                   None \<Rightarrow> collector ctx rest pixelNum fullRender None
                 | Some ch \<Rightarrow>
                    (case chan_send ch fullRender of
                       Inl e \<Rightarrow> Inl e
                     | Inr ch \<Rightarrow> collector ctx rest pixelNum fullRender (Some ch))))
          else collector ctx rest pixelNum fullRender partialRender))"

text \<open>
  One pass. The goroutines of the pass are the work generator, the workers and the
  collector; what they leave open is the order in which the results reach the
  collector. That order is the parameter \<open>sched\<close>: the positions of the jobs, in the
  order of arrival of their results. The pass returns its error; the renderer, the
  raster and the channel it has changed are returned with it.
\<close>

definition Render ::
  "(nat \<Rightarrow> nat) \<Rightarrow> ('state \<Rightarrow> V2i \<Rightarrow> V3 \<times> V3 \<times> 'm44 \<times> V2)
     \<Rightarrow> ('sdf \<Rightarrow> 'm44 pixelRender \<Rightarrow> real \<times> int) \<Rightarrow> nat list
     \<Rightarrow> 'sdf renderer3 \<Rightarrow> (nat \<Rightarrow> error option) \<Rightarrow> 'state \<Rightarrow> image_RGBA chan option
     \<Rightarrow> image_RGBA
     \<Rightarrow> panic + ('sdf renderer3 \<times> image_RGBA \<times> image_RGBA chan option \<times> error option)" where
  "Render rnd camera raycast sched r ctx state partialRender fullRender =
     (let fullRender = fullRender\<lparr>Pix := set_alpha 3 (Pix fullRender)\<rparr>;
          boundsSize = Bounds_Size fullRender;
          pixelCount = fst boundsSize * snd boundsSize
      in case update_pixelsRand rnd pixelCount r of
           Inl e \<Rightarrow> Inl e
         | Inr r \<Rightarrow>
            (let js = jobs (camera state boundsSize) boundsSize (pixelsRand r);
                 jobResults = map (\<lambda>i. work raycast r (js ! i)) sched
             in case collector ctx jobResults 0 fullRender partialRender of
                  Inl e \<Rightarrow> Inl e
                | Inr (fullRender, partialRender, err) \<Rightarrow>
                   (case chan_close partialRender of
                      Inl e \<Rightarrow> Inl e
                    | Inr partialRender \<Rightarrow> Inr (r, fullRender, partialRender, err))))"

text \<open>
  The worker pool. The work generator sends the jobs in order on an unbuffered channel,
  each of the \<open>k\<close> workers holds at most one job between taking it and handing it on,
  and the collector receives one result at a time. A state is the position of the next
  job to send, the jobs held by workers and the positions received so far.
\<close>

inductive pool_step :: "nat \<Rightarrow> nat \<Rightarrow> nat \<times> nat multiset \<times> nat list
    \<Rightarrow> nat \<times> nat multiset \<times> nat list \<Rightarrow> bool" for k n where
  take: "nxt < n \<Longrightarrow> size busy < k \<Longrightarrow>
           pool_step k n (nxt, busy, arrived) (Suc nxt, add_mset nxt busy, arrived)"
| hand_on: "i \<in># busy \<Longrightarrow>
           pool_step k n (nxt, busy, arrived) (nxt, busy - {#i#}, arrived @ [i])"

text \<open>
  \<open>pool_arrival k n sched\<close>: a pool of \<open>k\<close> workers can run \<open>n\<close> jobs to the end with the
  results arriving in the order \<open>sched\<close>.
\<close>

definition pool_arrival :: "nat \<Rightarrow> nat \<Rightarrow> nat list \<Rightarrow> bool" where
  "pool_arrival k n sched \<longleftrightarrow> (pool_step k n)\<^sup>*\<^sup>* (0, {#}, []) (n, {#}, sched)"

text \<open>
  The renderers a caller can hold between two passes: a new one, or one whose cached
  order has been updated by a pass.
\<close>

inductive cached :: "'sdf renderer3 \<Rightarrow> bool" where
  new: "cached (newDevRenderer3 shape)"
| pass: "cached r \<Longrightarrow> update_pixelsRand rnd pixelCount r = Inr r' \<Longrightarrow> cached r'"

section \<open>Concrete inputs\<close>

text \<open>A system of three rows, used to run the solver on a concrete input.\<close>

definition example_rows :: "V3 list" where
  "example_rows = [\<lparr>X = 0, Y = 2, Z = 1\<rparr>, \<lparr>X = 1, Y = 4, Z = 1\<rparr>, \<lparr>X = 1, Y = 2, Z = 0\<rparr>]"

definition example_rhs :: "real list" where
  "example_rhs = [3, 6, 3]"

text \<open>
  Two systems of two rows. In the first the exact denominator of row \<open>1\<close> is zero and
  the one computed in binary64 is not; in the second, whose diagonal entry is \<open>1/3\<close>
  rounded to binary64, it is the other way round.
\<close>

definition rows49 :: "V3 list" where
  "rows49 = [\<lparr>X = 0, Y = 49, Z = 1\<rparr>, \<lparr>X = 49, Y = 1, Z = 0\<rparr>]"

definition rows_third :: "V3 list" where
  "rows_third = [\<lparr>X = 0, Y = 3, Z = 1\<rparr>,
                 \<lparr>X = 1, Y = 6004799503160661 / 18014398509481984, Z = 0\<rparr>]"

text \<open>
  Three knots on a line, and a root finder that reports no critical points, to run the
  curve fitter on a concrete input.
\<close>

definition no_roots :: "real \<Rightarrow> real \<Rightarrow> real \<Rightarrow> real list" where
  "no_roots qa qb qc = []"

definition example_knots :: "V2 list" where
  "example_knots = [\<lparr>V2.X = 0, V2.Y = 0\<rparr>, \<lparr>V2.X = 1, V2.Y = 1\<rparr>, \<lparr>V2.X = 2, V2.Y = 2\<rparr>]"

text \<open>
  A raster of one transparent pixel, two sequences of draws for the shuffle, and the
  renderer left by a first pass at six pixels with the first of them.
\<close>

definition one_pixel :: image_RGBA where
  "one_pixel = \<lparr>Pix = [0, 0, 0, 0], Stride = 4, Rect_Min = (0, 0), Rect_Max = (1, 1)\<rparr>"

definition draws_zero :: "nat \<Rightarrow> nat" where
  "draws_zero i = 0"

definition draws_same :: "nat \<Rightarrow> nat" where
  "draws_same i = i"

definition after_first_pass :: "unit renderer3" where
  "after_first_pass = \<lparr>s = (), pixelsRand = [1, 2, 3, 4, 5, 0]\<rparr>"

section \<open>Correctness of the solver\<close>

lemma cprime_pos: "0 < i \<Longrightarrow> cprime m i = V3.Z (m ! i) / denominator m i"
  by (cases i) (simp_all add: denominator_def)

lemma dprime_pos:
  "0 < i \<Longrightarrow> dprime m rhs i = (rhs ! i - V3.X (m ! i) * dprime m rhs (i - 1)) / denominator m i"
  by (cases i) simp_all

lemma elimination_result:
  assumes "1 \<le> i" "i \<le> length m" "length cp = length m" "length x = length m"
    and "\<forall>j<i. cp ! j = cprime m j" "\<forall>j<i. x ! j = dprime m rhs j"
  shows "elimination m rhs i cp x =
     (if \<exists>j. i \<le> j \<and> j < length m \<and> denominator m j = 0 then Inl ZeroDenom
      else Inr (map (cprime m) [0..<length m], map (dprime m rhs) [0..<length m]))"
  using assms
proof (induction m rhs i cp x rule: elimination.induct)
  case (1 m rhs i cp x)
  show ?case
  proof (cases "i < length m")
    case False
    with "1.prems" have i: "i = length m" by simp
    have "cp = map (cprime m) [0..<length m]"
      using "1.prems" i by (intro nth_equalityI) simp_all
    moreover have "x = map (dprime m rhs) [0..<length m]"
      using "1.prems" i by (intro nth_equalityI) simp_all
    ultimately show ?thesis using i by (subst elimination.simps) simp
  next
    case True
    have prev: "cp ! (i - 1) = cprime m (i - 1)" "x ! (i - 1) = dprime m rhs (i - 1)"
      using "1.prems" by simp_all
    have den: "V3.Y (m ! i) - V3.X (m ! i) * cp ! (i - 1) = denominator m i"
      using prev by (simp add: denominator_def)
    show ?thesis
    proof (cases "denominator m i = 0")
      case z: True
      then have "\<exists>j. i \<le> j \<and> j < length m \<and> denominator m j = 0"
        using True by blast
      then show ?thesis using True z den by (subst elimination.simps) (simp add: Let_def)
    next
      case nz: False
      let ?cp = "cp[i := V3.Z (m ! i) / denominator m i]"
      let ?x = "x[i := (rhs ! i - V3.X (m ! i) * x ! (i - 1)) / denominator m i]"
      have step: "elimination m rhs i cp x = elimination m rhs (i + 1) ?cp ?x"
        using True nz den by (subst elimination.simps) (simp add: Let_def)
      have cpi: "\<forall>j<i + 1. ?cp ! j = cprime m j"
      proof (intro allI impI)
        fix j assume "j < i + 1"
        then consider "j < i" | "j = i" by linarith
        then show "?cp ! j = cprime m j"
        proof cases
          case 1 then show ?thesis using "1.prems" by simp
        next
          case 2 then show ?thesis using "1.prems" True by (simp add: cprime_pos)
        qed
      qed
      have xi: "\<forall>j<i + 1. ?x ! j = dprime m rhs j"
      proof (intro allI impI)
        fix j assume "j < i + 1"
        then consider "j < i" | "j = i" by linarith
        then show "?x ! j = dprime m rhs j"
        proof cases
          case 1 then show ?thesis using "1.prems" by simp
        next
          case 2 then show ?thesis using "1.prems" True prev by (simp add: dprime_pos)
        qed
      qed
      have ex: "(\<exists>j. i \<le> j \<and> j < length m \<and> denominator m j = 0)
             \<longleftrightarrow> (\<exists>j. i + 1 \<le> j \<and> j < length m \<and> denominator m j = 0)"
        using nz by (metis Suc_eq_plus1 Suc_leI le_neq_implies_less Suc_leD)
      have "elimination m rhs (i + 1) ?cp ?x =
        (if \<exists>j. i + 1 \<le> j \<and> j < length m \<and> denominator m j = 0 then Inl ZeroDenom
         else Inr (map (cprime m) [0..<length m], map (dprime m rhs) [0..<length m]))"
        using "1.IH" True nz den cpi xi "1.prems"(2,3,4) by simp
      then show ?thesis using step ex by simp
    qed
  qed
qed

lemma back_substitution_length [simp]:
  "length (back_substitution cp x k) = length x"
  by (induction k arbitrary: x) simp_all

lemma back_substitution_nth:
  assumes "k < length x"
  shows "(\<forall>j. k \<le> j \<longrightarrow> back_substitution cp x k ! j = x ! j) \<and>
         (\<forall>j<k. back_substitution cp x k ! j =
                  x ! j - cp ! j * back_substitution cp x k ! (j + 1))"
  using assms
proof (induction k arbitrary: x)
  case 0
  then show ?case by simp
next
  case (Suc k)
  let ?x = "x[k := x ! k - cp ! k * x ! (k + 1)]"
  let ?r = "back_substitution cp ?x k"
  have k: "k < length ?x" using Suc.prems by simp
  note IH = Suc.IH[OF k]
  have hi: "?r ! j = x ! j" if "Suc k \<le> j" for j
    using IH that by simp
  have at_k: "?r ! k = x ! k - cp ! k * x ! (k + 1)"
    using IH Suc.prems by simp
  have lo: "?r ! j = x ! j - cp ! j * ?r ! (j + 1)" if "j < Suc k" for j
  proof (cases "j = k")
    case True
    then show ?thesis using at_k hi[of "Suc k"] by simp
  next
    case False
    then have "j < k" using that by simp
    then show ?thesis using IH by simp
  qed
  show ?case using hi lo by simp
qed

lemma TriDiagonal_well_posed:
  assumes "well_posed m rhs"
  shows "TriDiagonal m rhs =
     Inr (back_substitution (map (cprime m) [0..<length m])
            (map (dprime m rhs) [0..<length m]) (length m - 1))"
proof -
  let ?n = "length m"
  from assms have n: "0 < ?n" and len: "length rhs = ?n"
    and x0: "V3.X (m ! 0) = 0" and zn: "V3.Z (m ! (?n - 1)) = 0" and y0: "V3.Y (m ! 0) \<noteq> 0"
    and den: "\<forall>i. 1 \<le> i \<and> i < ?n \<longrightarrow> denominator m i \<noteq> 0"
    by (simp_all add: well_posed_def)
  let ?cp = "(replicate ?n 0)[0 := V3.Z (m ! 0) / V3.Y (m ! 0)]"
  let ?x = "(replicate ?n 0)[0 := rhs ! 0 / V3.Y (m ! 0)]"
  have "elimination m rhs 1 ?cp ?x =
     (if \<exists>j. 1 \<le> j \<and> j < ?n \<and> denominator m j = 0 then Inl ZeroDenom
      else Inr (map (cprime m) [0..<?n], map (dprime m rhs) [0..<?n]))"
    using n by (intro elimination_result) (auto simp: Suc_le_eq)
  moreover have "\<not> (\<exists>j. 1 \<le> j \<and> j < ?n \<and> denominator m j = 0)"
    using den by blast
  ultimately have "elimination m rhs 1 ?cp ?x =
      Inr (map (cprime m) [0..<?n], map (dprime m rhs) [0..<?n])"
    by simp
  then show ?thesis
    using n len x0 zn y0 by (simp add: TriDiagonal_def Let_def)
qed

lemma solution_rows:
  assumes wp: "well_posed m rhs" and i: "i < length m"
  shows "row_holds m rhs (back_substitution (map (cprime m) [0..<length m])
            (map (dprime m rhs) [0..<length m]) (length m - 1)) i"
proof -
  let ?n = "length m"
  let ?cp = "map (cprime m) [0..<?n]"
  let ?dp = "map (dprime m rhs) [0..<?n]"
  let ?x = "back_substitution ?cp ?dp (?n - 1)"
  from wp have n: "0 < ?n"
    and x0: "V3.X (m ! 0) = 0" and zn: "V3.Z (m ! (?n - 1)) = 0" and y0: "V3.Y (m ! 0) \<noteq> 0"
    and den: "\<And>j. 1 \<le> j \<Longrightarrow> j < ?n \<Longrightarrow> denominator m j \<noteq> 0"
    by (simp_all add: well_posed_def)
  have k: "?n - 1 < length ?dp" using n by simp
  note bs = back_substitution_nth[OF k, of ?cp]
  have last: "?x ! (?n - 1) = dprime m rhs (?n - 1)"
    using bs n by simp
  have inner: "?x ! j = dprime m rhs j - cprime m j * ?x ! (j + 1)" if "j + 1 < ?n" for j
    using bs that by simp
  \<comment> \<open>the pivot of row \<open>i\<close>, which is the diagonal entry itself in row \<open>0\<close>\<close>
  define p where "p = (if i = 0 then V3.Y (m ! 0) else denominator m i)"
  define dprev where "dprev = (if i = 0 then 0 else dprime m rhs (i - 1))"
  define cprev where "cprev = (if i = 0 then 0 else cprime m (i - 1))"
  define xnext where "xnext = (if i + 1 = ?n then 0 else ?x ! (i + 1))"
  have p_nz: "p \<noteq> 0" using y0 den i by (simp add: p_def)
  have p_eq: "p = V3.Y (m ! i) - V3.X (m ! i) * cprev"
    using x0 by (auto simp: p_def cprev_def denominator_def)
  have cp_i: "cprime m i = V3.Z (m ! i) / p"
    by (cases i) (simp_all add: p_def denominator_def)
  have dp_i: "dprime m rhs i = (rhs ! i - V3.X (m ! i) * dprev) / p"
    using x0 by (cases i) (simp_all add: p_def dprev_def)
  have xi: "?x ! i = dprime m rhs i - cprime m i * xnext"
  proof (cases "i + 1 = ?n")
    case True
    then have "i = ?n - 1" by simp
    then show ?thesis using last zn True by (simp add: xnext_def cp_i)
  next
    case False
    then show ?thesis using inner[of i] i by (simp add: xnext_def)
  qed
  have "p * ?x ! i = p * ((rhs ! i - V3.X (m ! i) * dprev) / p - V3.Z (m ! i) / p * xnext)"
    unfolding xi cp_i dp_i ..
  also have "\<dots> = rhs ! i - V3.X (m ! i) * dprev - V3.Z (m ! i) * xnext"
    using p_nz by (simp add: field_simps)
  finally have pivot: "p * ?x ! i + V3.Z (m ! i) * xnext = rhs ! i - V3.X (m ! i) * dprev"
    by simp
  have xprev: "V3.X (m ! i) * (if i = 0 then 0 else ?x ! (i - 1))
       = V3.X (m ! i) * (dprev - cprev * ?x ! i)"
  proof (cases "i = 0")
    case True
    then show ?thesis by (simp add: dprev_def cprev_def)
  next
    case False
    then have "?x ! (i - 1) = dprime m rhs (i - 1) - cprime m (i - 1) * ?x ! i"
      using inner[of "i - 1"] i by simp
    then show ?thesis using False by (simp add: dprev_def cprev_def)
  qed
  have "V3.X (m ! i) * (if i = 0 then 0 else ?x ! (i - 1)) + V3.Y (m ! i) * ?x ! i
          + V3.Z (m ! i) * xnext = rhs ! i"
    using pivot unfolding xprev p_eq by (simp add: algebra_simps)
  then show ?thesis
    unfolding row_holds_def xnext_def by simp
qed

lemma TriDiagonal_cases:
  assumes "m \<noteq> []"
  shows "TriDiagonal m rhs =
     (if length rhs \<noteq> length m then Inl BadSizes
      else if V3.X (m ! 0) \<noteq> 0 \<or> V3.Z (m ! (length m - 1)) \<noteq> 0 then Inl BadValues
      else if V3.Y (m ! 0) = 0 then Inl ZeroDiag
      else if \<exists>j. 1 \<le> j \<and> j < length m \<and> denominator m j = 0 then Inl ZeroDenom
      else Inr (back_substitution (map (cprime m) [0..<length m])
                  (map (dprime m rhs) [0..<length m]) (length m - 1)))"
proof -
  let ?n = "length m"
  have n: "0 < ?n" using assms by simp
  let ?cp = "(replicate ?n 0)[0 := V3.Z (m ! 0) / V3.Y (m ! 0)]"
  let ?x = "(replicate ?n 0)[0 := rhs ! 0 / V3.Y (m ! 0)]"
  have el: "elimination m rhs 1 ?cp ?x =
     (if \<exists>j. 1 \<le> j \<and> j < ?n \<and> denominator m j = 0 then Inl ZeroDenom
      else Inr (map (cprime m) [0..<?n], map (dprime m rhs) [0..<?n]))"
    using n by (intro elimination_result) (auto simp: Suc_le_eq)
  show ?thesis
  proof (cases "\<exists>j. 1 \<le> j \<and> j < ?n \<and> denominator m j = 0")
    case True
    then show ?thesis
      unfolding TriDiagonal_def Let_def el using n by (auto simp del: One_nat_def)
  next
    case False
    then show ?thesis
      unfolding TriDiagonal_def Let_def el using n by (auto simp del: One_nat_def)
  qed
qed

section \<open>The fitted curve\<close>

subsection \<open>The system handed to the solver\<close>

lemma interior_rows_result:
  assumes "length m = length knot" "length dx = length knot" "length dy = length knot"
  shows "interior_rows knot i m dx dy =
    (map (\<lambda>j. if i \<le> j \<and> j < length knot - 1 then \<lparr>X = 1, Y = 4, Z = 1\<rparr> else m ! j)
        [0..<length knot],
     map (\<lambda>j. if i \<le> j \<and> j < length knot - 1
              then 3 * (V2.X (knot ! (j + 1)) - V2.X (knot ! (j - 1))) else dx ! j)
        [0..<length knot],
     map (\<lambda>j. if i \<le> j \<and> j < length knot - 1
              then 3 * (V2.Y (knot ! (j + 1)) - V2.Y (knot ! (j - 1))) else dy ! j)
        [0..<length knot])"
  using assms
proof (induction knot i m dx dy rule: interior_rows.induct)
  case (1 knot i m dx dy)
  show ?case
  proof (cases "i < length knot - 1")
    case False
    then show ?thesis
      using "1.prems" by (subst interior_rows.simps) (auto intro!: nth_equalityI)
  next
    case True
    have step: "interior_rows knot i m dx dy =
      interior_rows knot (i + 1)
          (m[i := \<lparr>X = 1, Y = 4, Z = 1\<rparr>])
          (dx[i := 3 * (V2.X (knot ! (i + 1)) - V2.X (knot ! (i - 1)))])
          (dy[i := 3 * (V2.Y (knot ! (i + 1)) - V2.Y (knot ! (i - 1)))])"
      using True by (subst interior_rows.simps) simp
    have il: "i < length knot" using True by simp
    show ?thesis
      unfolding step
      apply (subst "1.IH"[OF True])
      using "1.prems" il True by (auto simp: nth_list_update intro!: nth_equalityI)
  qed
qed

lemma spline_system_nth:
  assumes n: "2 \<le> length knot" and sys: "spline_system knot = (m, dx, dy)"
  shows "length m = length knot" and "length dx = length knot" and "length dy = length knot"
    and "m ! 0 = \<lparr>X = 0, Y = 2, Z = 1\<rparr>"
    and "m ! (length knot - 1) = \<lparr>X = 1, Y = 2, Z = 0\<rparr>"
    and "\<And>j. 0 < j \<Longrightarrow> j < length knot - 1 \<Longrightarrow> m ! j = \<lparr>X = 1, Y = 4, Z = 1\<rparr>"
    and "dx ! 0 = 3 * (V2.X (knot ! 1) - V2.X (knot ! 0))"
    and "dy ! 0 = 3 * (V2.Y (knot ! 1) - V2.Y (knot ! 0))"
    and "dx ! (length knot - 1) =
           3 * (V2.X (knot ! (length knot - 1)) - V2.X (knot ! (length knot - 2)))"
    and "dy ! (length knot - 1) =
           3 * (V2.Y (knot ! (length knot - 1)) - V2.Y (knot ! (length knot - 2)))"
proof -
  let ?n = "length knot"
  have ir: "interior_rows knot 1 (replicate ?n zero_V3) (replicate ?n 0) (replicate ?n 0) =
    (map (\<lambda>j. if 1 \<le> j \<and> j < ?n - 1 then \<lparr>X = 1, Y = 4, Z = 1\<rparr>
               else replicate ?n zero_V3 ! j) [0..<?n],
     map (\<lambda>j. if 1 \<le> j \<and> j < ?n - 1
              then 3 * (V2.X (knot ! (j + 1)) - V2.X (knot ! (j - 1)))
              else replicate ?n 0 ! j) [0..<?n],
     map (\<lambda>j. if 1 \<le> j \<and> j < ?n - 1
              then 3 * (V2.Y (knot ! (j + 1)) - V2.Y (knot ! (j - 1)))
              else replicate ?n 0 ! j) [0..<?n])"
    by (rule interior_rows_result) simp_all
  from sys have m: "m = (map (\<lambda>j. if 1 \<le> j \<and> j < ?n - 1 then \<lparr>X = 1, Y = 4, Z = 1\<rparr>
               else replicate ?n zero_V3 ! j) [0..<?n])
                 [0 := \<lparr>X = 0, Y = 2, Z = 1\<rparr>, ?n - 1 := \<lparr>X = 1, Y = 2, Z = 0\<rparr>]"
    and dx: "dx = (map (\<lambda>j. if 1 \<le> j \<and> j < ?n - 1
              then 3 * (V2.X (knot ! (j + 1)) - V2.X (knot ! (j - 1)))
              else replicate ?n 0 ! j) [0..<?n])
                 [0 := 3 * (V2.X (knot ! 1) - V2.X (knot ! 0)),
                  ?n - 1 := 3 * (V2.X (knot ! (?n - 1)) - V2.X (knot ! (?n - 2)))]"
    and dy: "dy = (map (\<lambda>j. if 1 \<le> j \<and> j < ?n - 1
              then 3 * (V2.Y (knot ! (j + 1)) - V2.Y (knot ! (j - 1)))
              else replicate ?n 0 ! j) [0..<?n])
                 [0 := 3 * (V2.Y (knot ! 1) - V2.Y (knot ! 0)),
                  ?n - 1 := 3 * (V2.Y (knot ! (?n - 1)) - V2.Y (knot ! (?n - 2)))]"
    unfolding spline_system_def Let_def ir by simp_all
  have ne: "knot \<noteq> []" "0 < ?n" "?n - 1 < ?n" "0 \<noteq> ?n - 1" using n by auto
  show "length m = ?n" "length dx = ?n" "length dy = ?n"
    by (simp_all add: m dx dy)
  show "m ! 0 = \<lparr>X = 0, Y = 2, Z = 1\<rparr>" using n ne by (simp add: m nth_list_update)
  show "m ! (?n - 1) = \<lparr>X = 1, Y = 2, Z = 0\<rparr>" using n ne by (simp add: m)
  show "m ! j = \<lparr>X = 1, Y = 4, Z = 1\<rparr>" if "0 < j" "j < ?n - 1" for j
    using that by (simp add: m nth_list_update)
  show "dx ! 0 = 3 * (V2.X (knot ! 1) - V2.X (knot ! 0))"
    using n ne by (simp add: dx nth_list_update)
  show "dy ! 0 = 3 * (V2.Y (knot ! 1) - V2.Y (knot ! 0))"
    using n ne by (simp add: dy nth_list_update)
  show "dx ! (?n - 1) = 3 * (V2.X (knot ! (?n - 1)) - V2.X (knot ! (?n - 2)))"
    using n ne by (simp add: dx)
  show "dy ! (?n - 1) = 3 * (V2.Y (knot ! (?n - 1)) - V2.Y (knot ! (?n - 2)))"
    using n ne by (simp add: dy)
qed

subsection \<open>The system has a solution\<close>

lemma spline_cprime_bounds:
  assumes "m ! 0 = \<lparr>X = 0, Y = 2, Z = 1\<rparr>"
    and "\<And>j. 0 < j \<Longrightarrow> j < n - 1 \<Longrightarrow> m ! j = \<lparr>X = 1, Y = 4, Z = 1\<rparr>"
  shows "i < n - 1 \<Longrightarrow> 0 < cprime m i \<and> cprime m i < 1"
proof (induction i)
  case 0
  then show ?case using assms(1) by simp
next
  case (Suc i)
  then have IH: "0 < cprime m i" "cprime m i < 1" by simp_all
  have row: "m ! Suc i = \<lparr>X = 1, Y = 4, Z = 1\<rparr>" using assms(2) Suc.prems by simp
  define t where "t = 4 - cprime m i"
  have eq: "cprime m (Suc i) = 1 / t" by (simp add: row t_def)
  have "3 < t" using IH by (simp add: t_def)
  then show ?case unfolding eq by (simp add: field_simps)
qed

lemma spline_denominator_pos:
  assumes "m ! 0 = \<lparr>X = 0, Y = 2, Z = 1\<rparr>"
    and "\<And>j. 0 < j \<Longrightarrow> j < n - 1 \<Longrightarrow> m ! j = \<lparr>X = 1, Y = 4, Z = 1\<rparr>"
    and "m ! (n - 1) = \<lparr>X = 1, Y = 2, Z = 0\<rparr>"
    and "1 \<le> i" "i < n"
  shows "0 < denominator m i"
proof -
  have "i - 1 < n - 1" using assms(4,5) by simp
  then have cp: "cprime m (i - 1) < 1"
    using spline_cprime_bounds[of m n "i - 1"] assms(1,2) by blast
  show ?thesis
  proof (cases "i = n - 1")
    case True
    then show ?thesis using cp assms(3) by (simp add: denominator_def)
  next
    case False
    then have "m ! i = \<lparr>X = 1, Y = 4, Z = 1\<rparr>" using assms(2,4,5) by simp
    then show ?thesis using cp by (simp add: denominator_def)
  qed
qed

lemma spline_system_well_posed:
  assumes n: "2 \<le> length knot" and sys: "spline_system knot = (m, dx, dy)"
  shows "well_posed m dx" and "well_posed m dy"
proof -
  note s = spline_system_nth[OF n sys]
  have den: "\<forall>i. 1 \<le> i \<and> i < length m \<longrightarrow> denominator m i \<noteq> 0"
  proof (intro allI impI)
    fix i assume "1 \<le> i \<and> i < length m"
    then have "0 < denominator m i"
      using spline_denominator_pos[of m "length knot" i] s(1,4,5,6) by simp
    then show "denominator m i \<noteq> 0" by simp
  qed
  have ne: "m \<noteq> []" using s(1) n by auto
  show "well_posed m dx" "well_posed m dy"
    unfolding well_posed_def using ne den s(1,2,3,4,5) by simp_all
qed

lemma segments_length [simp]: "length (segments knot xx xy i sp) = length sp"
proof (induction knot xx xy i sp rule: segments.induct)
  case (1 knot xx xy i sp)
  show ?case
  proof (cases "i < length knot - 1")
    case True
    show ?thesis
      by (subst segments.simps) (use True "1.IH"[OF True] in simp)
  next
    case False
    then show ?thesis by (subst segments.simps) simp
  qed
qed

lemma segments_nth:
  assumes "length sp = length knot - 1" and "j < length knot - 1"
  shows "segments knot xx xy i sp ! j =
     (if i \<le> j then
        \<lparr>idx = int j, p0 = knot ! j, p1 = knot ! (j + 1),
          px = CubicPolynomial_Set (V2.X (knot ! j)) (V2.X (knot ! (j + 1)))
                 (xx ! j) (xx ! (j + 1)),
          py = CubicPolynomial_Set (V2.Y (knot ! j)) (V2.Y (knot ! (j + 1)))
                 (xy ! j) (xy ! (j + 1))\<rparr>
      else sp ! j)"
  using assms
proof (induction knot xx xy i sp rule: segments.induct)
  case (1 knot xx xy i sp)
  show ?case
  proof (cases "i < length knot - 1")
    case False
    then show ?thesis using "1.prems" by (subst segments.simps) simp
  next
    case True
    note IH = "1.IH"[OF True, unfolded length_list_update, OF "1.prems"]
    have step: "segments knot xx xy i sp ! j =
        segments knot xx xy (i + 1)
          (sp[i := \<lparr>idx = int i, p0 = knot ! i, p1 = knot ! (i + 1),
                    px = CubicPolynomial_Set (V2.X (knot ! i)) (V2.X (knot ! (i + 1)))
                           (xx ! i) (xx ! (i + 1)),
                    py = CubicPolynomial_Set (V2.Y (knot ! i)) (V2.Y (knot ! (i + 1)))
                           (xy ! i) (xy ! (i + 1))\<rparr>]) ! j"
      using True by (subst segments.simps) simp
    consider "j < i" | "j = i" | "i + 1 \<le> j" by linarith
    then show ?thesis
    proof cases
      case 1
      then show ?thesis unfolding step IH by simp
    next
      case 2
      then show ?thesis unfolding step IH using True "1.prems" by simp
    next
      case 3
      then show ?thesis unfolding step IH by simp
    qed
  qed
qed

lemma CubicSpline2D_result:
  assumes n: "2 \<le> length knot" and sys: "spline_system knot = (m, dx, dy)"
  shows "\<exists>xx xy box.
           length xx = length knot \<and> length xy = length knot \<and>
           (\<forall>i<length knot. row_holds m dx xx i) \<and> (\<forall>i<length knot. row_holds m dy xy i) \<and>
           CubicSpline2D quad knot =
             Inr \<lparr>spline = segments knot xx xy 0 (replicate (length knot - 1) zero_CubicSpline),
                  bb = box\<rparr>"
proof -
  note s = spline_system_nth[OF n sys]
  note wp = spline_system_well_posed[OF n sys]
  let ?xx = "back_substitution (map (cprime m) [0..<length m])
              (map (dprime m dx) [0..<length m]) (length m - 1)"
  let ?xy = "back_substitution (map (cprime m) [0..<length m])
              (map (dprime m dy) [0..<length m]) (length m - 1)"
  have tx: "TriDiagonal m dx = Inr ?xx" and ty: "TriDiagonal m dy = Inr ?xy"
    by (rule TriDiagonal_well_posed[OF wp(1)], rule TriDiagonal_well_posed[OF wp(2)])
  have rx: "\<forall>i<length knot. row_holds m dx ?xx i"
    using solution_rows[OF wp(1)] s(1) by simp
  have ry: "\<forall>i<length knot. row_holds m dy ?xy i"
    using solution_rows[OF wp(2)] s(1) by simp
  have len: "length ?xx = length knot" "length ?xy = length knot"
    using s(1) by simp_all
  have "\<exists>box. CubicSpline2D quad knot =
      Inr \<lparr>spline = segments knot ?xx ?xy 0 (replicate (length knot - 1) zero_CubicSpline),
            bb = box\<rparr>"
    using n unfolding CubicSpline2D_def Let_def sys by (simp add: tx ty)
  then show ?thesis using rx ry len by blast
qed

subsection \<open>Finding a segment\<close>

lemma Set_f0 [simp]:
  "CubicPolynomial_f0 (CubicPolynomial_Set y0 y1 D0 D1) 0 = y0"
  "CubicPolynomial_f0 (CubicPolynomial_Set y0 y1 D0 D1) 1 = y1"
  by (simp_all add: CubicPolynomial_f0_def CubicPolynomial_Set_def)

lemma Find_clamped:
  assumes n: "1 \<le> length (spline crv)"
  shows "\<exists>i<length (spline crv). \<exists>u. 0 \<le> u \<and> u \<le> 1 \<and> Find crv t = Inr (spline crv ! i, u)"
proof -
  let ?n = "int (length (spline crv))"
  define t' where "t' = Clamp t 0 (real_of_int ?n)"
  have range: "0 \<le> t'" "t' \<le> real_of_int ?n"
    using n by (auto simp: t'_def Clamp_def)
  have gi: "go_int t' = \<lfloor>t'\<rfloor>" using range by (simp add: go_int_def)
  have fl: "0 \<le> \<lfloor>t'\<rfloor>" "\<lfloor>t'\<rfloor> \<le> ?n"
    using range by (simp_all add: le_floor_iff floor_le_iff)
  show ?thesis
  proof (cases "\<lfloor>t'\<rfloor> = ?n")
    case True
    have "Find crv t = Inr (spline crv ! (length (spline crv) - 1), 1)"
      unfolding Find_def Let_def t'_def[symmetric] gi using True n
      by (auto simp: nat_diff_distrib)
    then show ?thesis using n
      by (intro exI[of _ "length (spline crv) - 1"] conjI exI[of _ 1]) simp_all
  next
    case False
    then have lt: "\<lfloor>t'\<rfloor> < ?n" using fl by simp
    have "Find crv t = Inr (spline crv ! nat \<lfloor>t'\<rfloor>, t' - real_of_int \<lfloor>t'\<rfloor>)"
      unfolding Find_def Let_def t'_def[symmetric] gi using False fl lt by simp
    moreover have "nat \<lfloor>t'\<rfloor> < length (spline crv)" using lt fl by linarith
    moreover have "0 \<le> t' - real_of_int \<lfloor>t'\<rfloor>" "t' - real_of_int \<lfloor>t'\<rfloor> \<le> 1"
      by linarith+
    ultimately show ?thesis by blast
  qed
qed


lemma Find_at_end:
  assumes "1 \<le> length (spline crv)" and "real (length (spline crv)) \<le> t"
  shows "Find crv t = Inr (spline crv ! (length (spline crv) - 1), 1)"
  using assms by (auto simp: Find_def Let_def Clamp_def go_int_def nat_diff_distrib)

lemma Find_at_start:
  assumes "1 \<le> length (spline crv)" and "t \<le> 0"
  shows "Find crv t = Inr (spline crv ! 0, 0)"
  using assms by (auto simp: Find_def Let_def Clamp_def go_int_def)

lemma CubicSpline2D_Inr:
  assumes "CubicSpline2D quad knot = Inr crv"
  shows "2 \<le> length knot" and "length (spline crv) = length knot - 1"
proof -
  show n: "2 \<le> length knot"
    using assms by (cases "length knot < 2") (simp_all add: CubicSpline2D_def)
  obtain m dx dy where sys: "spline_system knot = (m, dx, dy)"
    by (cases "spline_system knot") auto
  from CubicSpline2D_result[OF n sys, of quad] assms
  show "length (spline crv) = length knot - 1" by auto
qed

lemma fitted_segments:
  assumes n: "2 \<le> length knot"
  shows "\<exists>crv m dx dy xx xy.
           CubicSpline2D quad knot = Inr crv \<and> length (spline crv) = length knot - 1 \<and>
           spline_system knot = (m, dx, dy) \<and>
           length xx = length knot \<and> length xy = length knot \<and>
           (\<forall>i<length knot. row_holds m dx xx i) \<and> (\<forall>i<length knot. row_holds m dy xy i) \<and>
           (\<forall>i<length knot - 1. spline crv ! i =
               \<lparr>idx = int i, p0 = knot ! i, p1 = knot ! (i + 1),
                 px = CubicPolynomial_Set (V2.X (knot ! i)) (V2.X (knot ! (i + 1)))
                        (xx ! i) (xx ! (i + 1)),
                 py = CubicPolynomial_Set (V2.Y (knot ! i)) (V2.Y (knot ! (i + 1)))
                        (xy ! i) (xy ! (i + 1))\<rparr>)"
proof -
  obtain m dx dy where sys: "spline_system knot = (m, dx, dy)"
    by (cases "spline_system knot") auto
  from CubicSpline2D_result[OF n sys, of quad]
  obtain xx xy box where r: "length xx = length knot" "length xy = length knot"
      "\<forall>i<length knot. row_holds m dx xx i" "\<forall>i<length knot. row_holds m dy xy i"
      "CubicSpline2D quad knot =
         Inr \<lparr>spline = segments knot xx xy 0 (replicate (length knot - 1) zero_CubicSpline),
              bb = box\<rparr>"
    by blast
  let ?crv = "\<lparr>spline = segments knot xx xy 0 (replicate (length knot - 1) zero_CubicSpline),
              bb = box\<rparr>"
  have "\<forall>i<length knot - 1. spline ?crv ! i =
               \<lparr>idx = int i, p0 = knot ! i, p1 = knot ! (i + 1),
                 px = CubicPolynomial_Set (V2.X (knot ! i)) (V2.X (knot ! (i + 1)))
                        (xx ! i) (xx ! (i + 1)),
                 py = CubicPolynomial_Set (V2.Y (knot ! i)) (V2.Y (knot ! (i + 1)))
                        (xy ! i) (xy ! (i + 1))\<rparr>"
    by (simp add: segments_nth)
  moreover have "length (spline ?crv) = length knot - 1" by simp
  ultimately show ?thesis using r sys by blast
qed

section \<open>The start of a pass and the cached order\<close>

lemma set_alpha_length [simp]: "length (set_alpha i pix) = length pix"
proof (induction i pix rule: set_alpha.induct)
  case (1 i pix)
  show ?case
  proof (cases "i < length pix")
    case True
    show ?thesis by (subst set_alpha.simps) (use True "1.IH"[OF True] in simp)
  next
    case False
    then show ?thesis by (subst set_alpha.simps) simp
  qed
qed

lemma fill_indices_result:
  assumes "length xs = nat pixelCount"
  shows "fill_indices pixelCount i xs =
           map (\<lambda>j. if i \<le> j then int j else xs ! j) [0..<nat pixelCount]"
  using assms
proof (induction pixelCount i xs rule: fill_indices.induct)
  case (1 pixelCount i xs)
  show ?case
  proof (cases "int i < pixelCount")
    case False
    then show ?thesis
      using "1.prems" by (subst fill_indices.simps) (auto intro!: nth_equalityI)
  next
    case True
    have il: "i < length xs" using True "1.prems" by simp
    show ?thesis
      apply (subst fill_indices.simps)
      apply (simp only: True if_True)
      apply (subst "1.IH"[OF True])
      using "1.prems" il by (auto simp: nth_list_update intro!: nth_equalityI)
  qed
qed

lemma fill_indices_fresh:
  "0 \<le> pixelCount \<Longrightarrow>
   fill_indices pixelCount 0 (replicate (nat pixelCount) 0) = map int [0..<nat pixelCount]"
  by (subst fill_indices_result) simp_all

lemma swap_mset: "i < length xs \<Longrightarrow> j < length xs \<Longrightarrow> mset (swap xs i j) = mset xs"
  unfolding swap_def by (metis mset_swap)

lemma swap_length [simp]: "length (swap xs i j) = length xs"
  by (simp add: swap_def)

lemma shuffle_from_mset:
  "i < length xs \<Longrightarrow> mset (shuffle_from rnd i xs) = mset xs"
proof (induction i arbitrary: xs)
  case 0
  then show ?case by simp
next
  case (Suc i)
  have j: "rnd (Suc i) mod (Suc i + 1) < length xs"
  proof -
    have "rnd (Suc i) mod (Suc i + 1) < Suc i + 1" by (rule mod_less_divisor) simp
    then show ?thesis using Suc.prems by linarith
  qed
  have "mset (swap xs (Suc i) (rnd (Suc i) mod (Suc i + 1))) = mset xs"
    using Suc.prems j by (rule swap_mset)
  moreover have "i < length (swap xs (Suc i) (rnd (Suc i) mod (Suc i + 1)))"
    using Suc.prems by simp
  ultimately show ?case using Suc.IH by simp
qed

lemma Shuffle_mset: "mset (Shuffle rnd (length xs) xs) = mset xs"
proof (cases xs)
  case Nil
  then show ?thesis by (simp add: Shuffle_def)
next
  case (Cons x xs')
  then show ?thesis unfolding Shuffle_def by (intro shuffle_from_mset) simp
qed

lemma update_pixelsRand_result:
  assumes "0 \<le> pixelCount"
  shows "update_pixelsRand rnd pixelCount r =
     Inr (if pixelCount \<noteq> int (length (pixelsRand r))
          then r\<lparr>pixelsRand := Shuffle rnd (nat pixelCount) (map int [0..<nat pixelCount])\<rparr>
          else r)"
  using assms by (simp add: update_pixelsRand_def fill_indices_fresh Let_def)

lemma cached_permutation:
  "cached r \<Longrightarrow> mset (pixelsRand r) = mset (map int [0..<length (pixelsRand r)])"
proof (induction rule: cached.induct)
  case (new shape)
  then show ?case by (simp add: newDevRenderer3_def)
next
  case (pass r rnd pixelCount r')
  show ?case
  proof (cases "pixelCount \<noteq> int (length (pixelsRand r))")
    case False
    then have "r' = r" using pass.hyps(2) by (simp add: update_pixelsRand_def)
    then show ?thesis using pass.IH by simp
  next
    case True
    then have nn: "0 \<le> pixelCount"
      using pass.hyps(2) by (cases "pixelCount < 0") (simp_all add: update_pixelsRand_def)
    let ?fresh = "map int [0..<nat pixelCount]"
    have "r' = r\<lparr>pixelsRand := Shuffle rnd (nat pixelCount) ?fresh\<rparr>"
      using pass.hyps(2) True unfolding update_pixelsRand_result[OF nn] by simp
    then have pr: "pixelsRand r' = Shuffle rnd (length ?fresh) ?fresh" by simp
    have m: "mset (pixelsRand r') = mset ?fresh" unfolding pr by (rule Shuffle_mset)
    then have "length (pixelsRand r') = nat pixelCount"
      by (metis length_map length_upt mset_eq_length minus_nat.diff_0)
    then show ?thesis using m by simp
  qed
qed

lemma Shuffle_six_zero: "Shuffle draws_zero 6 [0, 1, 2, 3, 4, 5] = [1, 2, 3, 4, 5, 0]"
  by code_simp

lemma Shuffle_six_same: "Shuffle draws_same 6 [0, 1, 2, 3, 4, 5] = [0, 1, 2, 3, 4, 5]"
  by code_simp

lemma upt_six: "map int [0..<6] = [0, 1, 2, 3, 4, 5]"
  by code_simp

lemma first_pass: "update_pixelsRand draws_zero (2 * 3) (newDevRenderer3 ()) = Inr after_first_pass"
proof -
  have "update_pixelsRand draws_zero 6 (newDevRenderer3 ()) = Inr after_first_pass"
    by (subst update_pixelsRand_result)
       (simp_all add: newDevRenderer3_def after_first_pass_def upt_six Shuffle_six_zero)
  then show ?thesis by simp
qed

lemma collector_nil_step:
  "collector ctx (rp # rest) pixelNum img None =
     (case SetRGBA img (fst (pixel rp)) (snd (pixel rp)) (rendered rp) of
        Inl e \<Rightarrow> Inl e
      | Inr img1 \<Rightarrow>
          if Suc pixelNum mod pixelBatch = 0 \<and> ctx (Suc pixelNum) \<noteq> None
          then Inr (img1, None, ctx (Suc pixelNum))
          else collector ctx rest (Suc pixelNum) img1 None)"
  by (cases "SetRGBA img (fst (pixel rp)) (snd (pixel rp)) (rendered rp)";
      cases "ctx (Suc pixelNum)") (simp_all add: Let_def)

lemma SetRGBA_panic: "SetRGBA img x y col = Inl e \<Longrightarrow> e = IndexOutOfRange"
  by (simp add: SetRGBA_def Let_def split: if_splits)

lemma collector_nil:
  "collector ctx rs pixelNum img None = Inr (img', ch', err) \<Longrightarrow> ch' = None"
proof (induction rs arbitrary: pixelNum img)
  case Nil
  then show ?case by simp
next
  case (Cons rp rs)
  show ?case
  proof (cases "SetRGBA img (fst (pixel rp)) (snd (pixel rp)) (rendered rp)")
    case (Inl e)
    then show ?thesis using Cons.prems unfolding collector_nil_step by simp
  next
    case (Inr img1)
    show ?thesis
    proof (cases "Suc pixelNum mod pixelBatch = 0 \<and> ctx (Suc pixelNum) \<noteq> None")
      case True
      then show ?thesis using Cons.prems Inr unfolding collector_nil_step by simp
    next
      case False
      then have "collector ctx rs (Suc pixelNum) img1 None = Inr (img', ch', err)"
        using Cons.prems Inr unfolding collector_nil_step by auto
      then show ?thesis by (rule Cons.IH)
    qed
  qed
qed

lemma collector_panic:
  "collector ctx rs pixelNum img None = Inl e \<Longrightarrow> e = IndexOutOfRange"
proof (induction rs arbitrary: pixelNum img)
  case Nil
  then show ?case by simp
next
  case (Cons rp rs)
  show ?case
  proof (cases "SetRGBA img (fst (pixel rp)) (snd (pixel rp)) (rendered rp)")
    case (Inl e')
    then have "e' = IndexOutOfRange" by (rule SetRGBA_panic)
    then show ?thesis using Cons.prems Inl unfolding collector_nil_step by simp
  next
    case (Inr img1)
    show ?thesis
    proof (cases "Suc pixelNum mod pixelBatch = 0 \<and> ctx (Suc pixelNum) \<noteq> None")
      case True
      then show ?thesis using Cons.prems Inr unfolding collector_nil_step by simp
    next
      case False
      then have "collector ctx rs (Suc pixelNum) img1 None = Inl e"
        using Cons.prems Inr unfolding collector_nil_step by auto
      then show ?thesis by (rule Cons.IH)
    qed
  qed
qed

section \<open>The solver in the arithmetic of the program: what it returns\<close>

lemma cprime_fl_pos:
  "0 < i \<Longrightarrow> cprime_fl fl m i = fl (V3.Z (m ! i) / denominator_fl fl m i)"
  by (cases i) (simp_all add: denominator_fl_def)

lemma dprime_fl_pos:
  "0 < i \<Longrightarrow> dprime_fl fl m rhs i =
     fl (fl (rhs ! i - fl (V3.X (m ! i) * dprime_fl fl m rhs (i - 1))) / denominator_fl fl m i)"
  by (cases i) simp_all

lemma elimination_fl_result:
  assumes "1 \<le> i" "i \<le> length m" "length cp = length m" "length x = length m"
    and "\<forall>j<i. cp ! j = cprime_fl fl m j" "\<forall>j<i. x ! j = dprime_fl fl m rhs j"
  shows "elimination_fl fl m rhs i cp x =
     (if \<exists>j. i \<le> j \<and> j < length m \<and> denominator_fl fl m j = 0 then Inl ZeroDenom
      else Inr (map (cprime_fl fl m) [0..<length m], map (dprime_fl fl m rhs) [0..<length m]))"
  using assms
proof (induction fl m rhs i cp x rule: elimination_fl.induct)
  case (1 fl m rhs i cp x)
  show ?case
  proof (cases "i < length m")
    case False
    with "1.prems" have i: "i = length m" by simp
    have "cp = map (cprime_fl fl m) [0..<length m]"
      using "1.prems" i by (intro nth_equalityI) simp_all
    moreover have "x = map (dprime_fl fl m rhs) [0..<length m]"
      using "1.prems" i by (intro nth_equalityI) simp_all
    ultimately show ?thesis using i by (subst elimination_fl.simps) simp
  next
    case True
    have prev: "cp ! (i - 1) = cprime_fl fl m (i - 1)" "x ! (i - 1) = dprime_fl fl m rhs (i - 1)"
      using "1.prems" by simp_all
    have den: "fl (V3.Y (m ! i) - fl (V3.X (m ! i) * cp ! (i - 1))) = denominator_fl fl m i"
      using prev by (simp add: denominator_fl_def)
    show ?thesis
    proof (cases "denominator_fl fl m i = 0")
      case z: True
      then have "\<exists>j. i \<le> j \<and> j < length m \<and> denominator_fl fl m j = 0"
        using True by blast
      then show ?thesis using True z den by (subst elimination_fl.simps) (simp add: Let_def)
    next
      case nz: False
      let ?cp = "cp[i := fl (V3.Z (m ! i) / denominator_fl fl m i)]"
      let ?x = "x[i := fl (fl (rhs ! i - fl (V3.X (m ! i) * x ! (i - 1))) / denominator_fl fl m i)]"
      have step: "elimination_fl fl m rhs i cp x = elimination_fl fl m rhs (i + 1) ?cp ?x"
        using True nz den by (subst elimination_fl.simps) (simp add: Let_def)
      have cpi: "\<forall>j<i + 1. ?cp ! j = cprime_fl fl m j"
      proof (intro allI impI)
        fix j assume "j < i + 1"
        then consider "j < i" | "j = i" by linarith
        then show "?cp ! j = cprime_fl fl m j"
        proof cases
          case 1 then show ?thesis using "1.prems" by simp
        next
          case 2 then show ?thesis using "1.prems" True by (simp add: cprime_fl_pos)
        qed
      qed
      have xi: "\<forall>j<i + 1. ?x ! j = dprime_fl fl m rhs j"
      proof (intro allI impI)
        fix j assume "j < i + 1"
        then consider "j < i" | "j = i" by linarith
        then show "?x ! j = dprime_fl fl m rhs j"
        proof cases
          case 1 then show ?thesis using "1.prems" by simp
        next
          case 2 then show ?thesis using "1.prems" True prev by (simp add: dprime_fl_pos)
        qed
      qed
      have ex: "(\<exists>j. i \<le> j \<and> j < length m \<and> denominator_fl fl m j = 0)
             \<longleftrightarrow> (\<exists>j. i + 1 \<le> j \<and> j < length m \<and> denominator_fl fl m j = 0)"
        using nz by (metis Suc_eq_plus1 Suc_leI le_neq_implies_less Suc_leD)
      have "elimination_fl fl m rhs (i + 1) ?cp ?x =
        (if \<exists>j. i + 1 \<le> j \<and> j < length m \<and> denominator_fl fl m j = 0 then Inl ZeroDenom
         else Inr (map (cprime_fl fl m) [0..<length m], map (dprime_fl fl m rhs) [0..<length m]))"
        using "1.IH" True nz den cpi xi "1.prems"(2,3,4) by simp
      then show ?thesis using step ex by simp
    qed
  qed
qed

lemma TriDiagonal_fl_cases:
  assumes "m \<noteq> []"
  shows "TriDiagonal_fl fl m rhs =
     (if length rhs \<noteq> length m then Inl BadSizes
      else if V3.X (m ! 0) \<noteq> 0 \<or> V3.Z (m ! (length m - 1)) \<noteq> 0 then Inl BadValues
      else if V3.Y (m ! 0) = 0 then Inl ZeroDiag
      else if \<exists>j. 1 \<le> j \<and> j < length m \<and> denominator_fl fl m j = 0 then Inl ZeroDenom
      else Inr (back_substitution_fl fl (map (cprime_fl fl m) [0..<length m])
                  (map (dprime_fl fl m rhs) [0..<length m]) (length m - 1)))"
proof -
  let ?n = "length m"
  have n: "0 < ?n" using assms by simp
  let ?cp = "(replicate ?n 0)[0 := fl (V3.Z (m ! 0) / V3.Y (m ! 0))]"
  let ?x = "(replicate ?n 0)[0 := fl (rhs ! 0 / V3.Y (m ! 0))]"
  have el: "elimination_fl fl m rhs 1 ?cp ?x =
     (if \<exists>j. 1 \<le> j \<and> j < ?n \<and> denominator_fl fl m j = 0 then Inl ZeroDenom
      else Inr (map (cprime_fl fl m) [0..<?n], map (dprime_fl fl m rhs) [0..<?n]))"
    using n by (intro elimination_fl_result) (auto simp: Suc_le_eq)
  show ?thesis
  proof (cases "\<exists>j. 1 \<le> j \<and> j < ?n \<and> denominator_fl fl m j = 0")
    case True
    then show ?thesis
      unfolding TriDiagonal_fl_def Let_def el using n by (auto simp del: One_nat_def)
  next
    case False
    then show ?thesis
      unfolding TriDiagonal_fl_def Let_def el using n by (auto simp del: One_nat_def)
  qed
qed

lemma elimination_fl_exact:
  "elimination_fl (\<lambda>v. v) m rhs i cp x = elimination m rhs i cp x"
proof (induction m rhs i cp x rule: elimination.induct)
  case (1 m rhs i cp x)
  show ?case
  proof (cases "i < length m")
    case False
    then show ?thesis by (subst elimination_fl.simps, subst elimination.simps) simp
  next
    case True
    define denom where "denom = V3.Y (m ! i) - V3.X (m ! i) * cp ! (i - 1)"
    show ?thesis
    proof (cases "denom = 0")
      case z: True
      then show ?thesis
        using True unfolding denom_def
        by (subst elimination_fl.simps, subst elimination.simps) (simp add: Let_def)
    next
      case nz: False
      note IH = "1.IH"[OF True denom_def nz]
      show ?thesis
        using True nz IH unfolding denom_def
        by (subst elimination_fl.simps, subst elimination.simps) (simp add: Let_def)
    qed
  qed
qed

lemma back_substitution_fl_exact:
  "back_substitution_fl (\<lambda>v. v) cp x k = back_substitution cp x k"
  by (induction k arbitrary: x) simp_all

lemma TriDiagonal_fl_exact: "TriDiagonal_fl (\<lambda>v. v) m rhs = TriDiagonal m rhs"
  unfolding TriDiagonal_fl_def TriDiagonal_def elimination_fl_exact back_substitution_fl_exact
  by (rule refl)

lemma denominator_rows49: "denominator_fl round64 rows49 1 = 1 / 9007199254740992"
  by code_simp

lemma denominator_rows_third: "denominator_fl round64 rows_third 1 = 0"
  by code_simp

lemma round64_third: "round64 (1 / 3) = 6004799503160661 / 18014398509481984"
  by code_simp

text \<open>
  Claim C1. For a system of \<open>n \<ge> 1\<close> rows and a right-hand side of length \<open>n\<close>, with
  \<open>m[0].X = 0\<close>, \<open>m[n-1].Z = 0\<close>, \<open>m[0].Y \<noteq> 0\<close> and every denominator of the forward
  elimination nonzero, \<open>TriDiagonal\<close> returns a vector \<open>x\<close> of length \<open>n\<close> that satisfies
  every row equation \<open>m[i].X * x[i-1] + m[i].Y * x[i] + m[i].Z * x[i+1] = d[i]\<close>, where
  \<open>x[-1]\<close> and \<open>x[n]\<close> are read as \<open>0\<close>, in exact arithmetic.
\<close>

theorem TriDiagonal_solves:
  assumes "1 \<le> length m" and "length rhs = length m"
    and "V3.X (m ! 0) = 0" and "V3.Z (m ! (length m - 1)) = 0" and "V3.Y (m ! 0) \<noteq> 0"
    and "\<forall>i. 1 \<le> i \<and> i < length m \<longrightarrow> denominator m i \<noteq> 0"
  shows "\<exists>x. TriDiagonal m rhs = Inr x \<and> length x = length m \<and>
             (\<forall>i<length m. row_holds m rhs x i)"
proof -
  have wp: "well_posed m rhs"
    using assms unfolding well_posed_def by (cases m) simp_all
  let ?x = "back_substitution (map (cprime m) [0..<length m])
              (map (dprime m rhs) [0..<length m]) (length m - 1)"
  have "TriDiagonal m rhs = Inr ?x" by (rule TriDiagonal_well_posed[OF wp])
  moreover have "length ?x = length m" by simp
  moreover have "\<forall>i<length m. row_holds m rhs ?x i"
    using solution_rows[OF wp] by blast
  ultimately show ?thesis by blast
qed

lemma example_denominators:
  "\<forall>i. 1 \<le> i \<and> i < length example_rows \<longrightarrow> denominator example_rows i \<noteq> 0"
proof (intro allI impI)
  fix i assume "1 \<le> i \<and> i < length example_rows"
  then have "i = 1 \<or> i = 2" by (auto simp: example_rows_def)
  then show "denominator example_rows i \<noteq> 0"
    by (auto simp: denominator_def example_rows_def numeral_2_eq_2)
qed

theorem TriDiagonal_solves_witness:
  "1 \<le> length example_rows \<and> length example_rhs = length example_rows \<and>
   V3.X (example_rows ! 0) = 0 \<and> V3.Z (example_rows ! (length example_rows - 1)) = 0 \<and>
   V3.Y (example_rows ! 0) \<noteq> 0 \<and>
   (\<exists>x. TriDiagonal example_rows example_rhs = Inr x \<and> length x = length example_rows \<and>
        row_holds example_rows example_rhs x 0 \<and> row_holds example_rows example_rhs x 1 \<and>
        row_holds example_rows example_rhs x 2)"
proof -
  have h: "1 \<le> length example_rows" "length example_rhs = length example_rows"
    "V3.X (example_rows ! 0) = 0" "V3.Z (example_rows ! (length example_rows - 1)) = 0"
    "V3.Y (example_rows ! 0) \<noteq> 0"
    by (simp_all add: example_rows_def example_rhs_def)
  from TriDiagonal_solves[OF h example_denominators]
  obtain x where "TriDiagonal example_rows example_rhs = Inr x"
    "length x = length example_rows" "\<forall>i<length example_rows. row_holds example_rows example_rhs x i"
    by blast
  moreover have "length example_rows = 3" by (simp add: example_rows_def)
  ultimately show ?thesis using h by auto
qed

section \<open>Properties of the fitted curve\<close>



text \<open>
  Claim C3. For every sequence of \<open>N \<ge> 2\<close> knots, the second derivative of the fitted
  curve is zero at both outer ends: \<open>px.f2(0)\<close> and \<open>py.f2(0)\<close> of the first segment and
  \<open>px.f2(1)\<close> and \<open>py.f2(1)\<close> of the last segment are zero, in exact arithmetic.
\<close>

theorem CubicSpline2D_natural_ends:
  assumes "2 \<le> length knot"
  shows "\<exists>crv. CubicSpline2D quad knot = Inr crv \<and>
           length (spline crv) = length knot - 1 \<and>
           CubicPolynomial_f2 (px (spline crv ! 0)) 0 = 0 \<and>
           CubicPolynomial_f2 (py (spline crv ! 0)) 0 = 0 \<and>
           CubicPolynomial_f2 (px (spline crv ! (length knot - 2))) 1 = 0 \<and>
           CubicPolynomial_f2 (py (spline crv ! (length knot - 2))) 1 = 0"
proof -
  let ?n = "length knot"
  from fitted_segments[OF assms, of quad]
  obtain crv m dx dy xx xy where
    crv: "CubicSpline2D quad knot = Inr crv" and len: "length (spline crv) = ?n - 1"
    and sys: "spline_system knot = (m, dx, dy)"
    and rx: "\<forall>i<?n. row_holds m dx xx i" and ry: "\<forall>i<?n. row_holds m dy xy i"
    and seg: "\<forall>i<?n - 1. spline crv ! i =
               \<lparr>idx = int i, p0 = knot ! i, p1 = knot ! (i + 1),
                 px = CubicPolynomial_Set (V2.X (knot ! i)) (V2.X (knot ! (i + 1)))
                        (xx ! i) (xx ! (i + 1)),
                 py = CubicPolynomial_Set (V2.Y (knot ! i)) (V2.Y (knot ! (i + 1)))
                        (xy ! i) (xy ! (i + 1))\<rparr>"
    by blast
  note s = spline_system_nth[OF assms sys]
  have idx: "0 < ?n" "0 < ?n - 1" "?n - 1 < ?n" "?n - 2 < ?n - 1" "?n - 2 + 1 = ?n - 1"
    "?n - 1 \<noteq> 0" "?n - 1 - 1 = ?n - 2" "(0::nat) + 1 \<noteq> ?n" "(0::nat) + 1 = 1"
    using assms by auto
  have first_x: "2 * xx ! 0 + xx ! 1 = 3 * (V2.X (knot ! 1) - V2.X (knot ! 0))"
    using rx[rule_format, OF idx(1)] idx(8) unfolding row_holds_def s(1) s(4) s(7)
    by simp
  have first_y: "2 * xy ! 0 + xy ! 1 = 3 * (V2.Y (knot ! 1) - V2.Y (knot ! 0))"
    using ry[rule_format, OF idx(1)] idx(8) unfolding row_holds_def s(1) s(4) s(8)
    by simp
  have last_x: "xx ! (?n - 2) + 2 * xx ! (?n - 1) =
      3 * (V2.X (knot ! (?n - 1)) - V2.X (knot ! (?n - 2)))"
    using rx[rule_format, OF idx(3)] idx(6,7) assms unfolding row_holds_def s(1) s(5) s(9)
    by simp
  have last_y: "xy ! (?n - 2) + 2 * xy ! (?n - 1) =
      3 * (V2.Y (knot ! (?n - 1)) - V2.Y (knot ! (?n - 2)))"
    using ry[rule_format, OF idx(3)] idx(6,7) assms unfolding row_holds_def s(1) s(5) s(10)
    by simp
  have seg0: "spline crv ! 0 =
      \<lparr>idx = int 0, p0 = knot ! 0, p1 = knot ! 1,
        px = CubicPolynomial_Set (V2.X (knot ! 0)) (V2.X (knot ! 1)) (xx ! 0) (xx ! 1),
        py = CubicPolynomial_Set (V2.Y (knot ! 0)) (V2.Y (knot ! 1)) (xy ! 0) (xy ! 1)\<rparr>"
    using seg[rule_format, OF idx(2)] by simp
  have segn: "spline crv ! (?n - 2) =
      \<lparr>idx = int (?n - 2), p0 = knot ! (?n - 2), p1 = knot ! (?n - 1),
        px = CubicPolynomial_Set (V2.X (knot ! (?n - 2))) (V2.X (knot ! (?n - 1)))
               (xx ! (?n - 2)) (xx ! (?n - 1)),
        py = CubicPolynomial_Set (V2.Y (knot ! (?n - 2))) (V2.Y (knot ! (?n - 1)))
               (xy ! (?n - 2)) (xy ! (?n - 1))\<rparr>"
    using seg[rule_format, OF idx(4)] unfolding idx(5) by simp
  have "CubicPolynomial_f2 (px (spline crv ! 0)) 0 = 0"
    unfolding seg0 using first_x by (simp add: CubicPolynomial_f2_def CubicPolynomial_Set_def)
  moreover have "CubicPolynomial_f2 (py (spline crv ! 0)) 0 = 0"
    unfolding seg0 using first_y by (simp add: CubicPolynomial_f2_def CubicPolynomial_Set_def)
  moreover have "CubicPolynomial_f2 (px (spline crv ! (?n - 2))) 1 = 0"
    unfolding segn using last_x by (simp add: CubicPolynomial_f2_def CubicPolynomial_Set_def)
  moreover have "CubicPolynomial_f2 (py (spline crv ! (?n - 2))) 1 = 0"
    unfolding segn using last_y by (simp add: CubicPolynomial_f2_def CubicPolynomial_Set_def)
  ultimately show ?thesis using crv len by blast
qed

theorem CubicSpline2D_natural_ends_witness:
  "2 \<le> length example_knots \<and>
   (\<exists>crv. CubicSpline2D no_roots example_knots = Inr crv \<and>
      CubicPolynomial_f2 (px (spline crv ! 0)) 0 = 0 \<and>
      CubicPolynomial_f2 (py (spline crv ! 0)) 0 = 0 \<and>
      CubicPolynomial_f2 (px (spline crv ! 1)) 1 = 0 \<and>
      CubicPolynomial_f2 (py (spline crv ! 1)) 1 = 0)"
proof -
  have h: "2 \<le> length example_knots" by (simp add: example_knots_def)
  have "length example_knots - 2 = 1" by (simp add: example_knots_def)
  with CubicSpline2D_natural_ends[OF h, of no_roots] h show ?thesis by auto
qed

section \<open>Properties of a render pass\<close>

text \<open>
  Claim C4 says that \<open>Render\<close> first makes every pixel of the raster fully transparent,
  as the comment on the loop does. The loop writes \<open>255\<close> to the alpha byte of every
  pixel and leaves the colour bytes alone: a transparent pixel \<open>(0, 0, 0, 0)\<close> becomes the
  opaque pixel \<open>(0, 0, 0, 255)\<close>.
\<close>

theorem initial_alpha_opaque:
  "set_alpha 3 (Pix one_pixel) = [0, 0, 0, 255] \<and>
   RGBAAt (one_pixel\<lparr>Pix := set_alpha 3 (Pix one_pixel)\<rparr>) 0 0
     = Inr \<lparr>R = 0, G = 0, B = 0, A = 255\<rparr>"
proof -
  have "set_alpha 3 [0, 0, 0, 0] = set_alpha 7 [0, 0, 0, 255]"
    by (subst set_alpha.simps) simp
  also have "\<dots> = [0, 0, 0, 255]"
    by (subst set_alpha.simps) simp
  finally have a: "set_alpha 3 (Pix one_pixel) = [0, 0, 0, 255]"
    by (simp add: one_pixel_def)
  show ?thesis
    unfolding a by (simp add: one_pixel_def RGBAAt_def Point_In_def PixOffset_def)
qed

text \<open>
  Claim C5, as stated: whenever the resolution changes between two passes, the cached
  order is made anew. The code compares the number of pixels only: after a pass at
  \<open>2 \<times> 3\<close>, a pass at \<open>3 \<times> 2\<close> keeps the cached order and makes no draw.
\<close>

theorem same_count_counterexample:
  "update_pixelsRand draws_zero (2 * 3) (newDevRenderer3 ()) = Inr after_first_pass \<and>
   update_pixelsRand draws_same (3 * 2) after_first_pass = Inr after_first_pass \<and>
   pixelsRand after_first_pass \<noteq> Shuffle draws_same 6 [0, 1, 2, 3, 4, 5] \<and>
   (2 :: int, 3 :: int) \<noteq> (3, 2)"
  using first_pass
  by (simp add: Shuffle_six_same) (simp add: update_pixelsRand_def after_first_pass_def)

text \<open>
  Claim C5, amended: for a renderer as it is between passes and a raster of \<open>w \<times> h\<close>
  pixels, the update at the start of the pass returns, the cached order is then a
  permutation of \<open>0..w*h-1\<close>, it has been made anew by a shuffle of \<open>0..w*h-1\<close> if the
  number of pixels differs from the length of the cached order, and it is unchanged
  otherwise.
\<close>

theorem pixelsRand_permutation:
  assumes "cached r" and "0 \<le> w" and "0 \<le> h"
  shows "\<exists>r'. update_pixelsRand rnd (w * h) r = Inr r' \<and>
           mset (pixelsRand r') = mset (map int [0..<nat (w * h)]) \<and>
           (w * h \<noteq> int (length (pixelsRand r)) \<longrightarrow>
              pixelsRand r' = Shuffle rnd (nat (w * h)) (map int [0..<nat (w * h)])) \<and>
           (w * h = int (length (pixelsRand r)) \<longrightarrow> r' = r)"
proof -
  have nn: "0 \<le> w * h" using assms(2,3) by simp
  let ?fresh = "map int [0..<nat (w * h)]"
  show ?thesis
  proof (cases "w * h \<noteq> int (length (pixelsRand r))")
    case True
    have "mset (Shuffle rnd (length ?fresh) ?fresh) = mset ?fresh" by (rule Shuffle_mset)
    then show ?thesis
      unfolding update_pixelsRand_result[OF nn] using True by simp
  next
    case False
    then have "length (pixelsRand r) = nat (w * h)" by simp
    then show ?thesis
      unfolding update_pixelsRand_result[OF nn] using False cached_permutation[OF assms(1)]
      by simp
  qed
qed

theorem pixelsRand_permutation_witness:
  "cached (newDevRenderer3 ()) \<and> (0 :: int) \<le> 2 \<and> (0 :: int) \<le> 3 \<and>
   (\<exists>r'. update_pixelsRand draws_zero (2 * 3) (newDevRenderer3 ()) = Inr r' \<and>
      mset (pixelsRand r') = mset [0, 1, 2, 3, 4, 5] \<and> pixelsRand r' = [1, 2, 3, 4, 5, 0])"
proof -
  have c: "cached (newDevRenderer3 ())" by (rule cached.new)
  have h: "(0 :: int) \<le> 2" "(0 :: int) \<le> 3" by simp_all
  from pixelsRand_permutation[OF c h, of draws_zero]
  obtain r' where r: "update_pixelsRand draws_zero (2 * 3) (newDevRenderer3 ()) = Inr r'"
    and m: "mset (pixelsRand r') = mset (map int [0..<nat (2 * 3)])"
    by blast
  have "r' = after_first_pass" using r first_pass by simp
  then have "pixelsRand r' = [1, 2, 3, 4, 5, 0]" by (simp add: after_first_pass_def)
  moreover have "mset (pixelsRand r') = mset [0, 1, 2, 3, 4, 5]"
    using m by (simp add: upt_six)
  ultimately show ?thesis using c r h by (intro conjI exI[of _ r']) simp_all
qed

text \<open>
  Claim C6. For a curve fitted to \<open>N \<ge> 2\<close> knots, \<open>Find(0)\<close> returns segment \<open>0\<close> with
  local \<open>t = 0\<close>, \<open>Find(N-1)\<close> returns segment \<open>N - 2\<close> with local \<open>t = 1\<close>, a
  parameter below \<open>0\<close> is treated as \<open>0\<close> and one above \<open>N - 1\<close> as \<open>N - 1\<close>, and for
  every parameter the segment returned is inside the slice, with a local parameter
  in \<open>[0, 1]\<close>: the index is never out of range.
\<close>

theorem Find_boundaries:
  assumes "CubicSpline2D quad knot = Inr crv"
  shows "length (spline crv) = length knot - 1 \<and>
         (\<forall>i<length knot - 1. idx (spline crv ! i) = int i) \<and>
         Find crv 0 = Inr (spline crv ! 0, 0) \<and>
         Find crv (real (length knot - 1)) = Inr (spline crv ! (length knot - 2), 1) \<and>
         (\<forall>t<0. Find crv t = Inr (spline crv ! 0, 0)) \<and>
         (\<forall>t>real (length knot - 1). Find crv t = Inr (spline crv ! (length knot - 2), 1)) \<and>
         (\<forall>t. \<exists>i<length knot - 1. \<exists>u. 0 \<le> u \<and> u \<le> 1 \<and> Find crv t = Inr (spline crv ! i, u))"
proof -
  note n = CubicSpline2D_Inr[OF assms]
  have one: "1 \<le> length (spline crv)" and two: "length (spline crv) - 1 = length knot - 2"
    using n by simp_all
  from fitted_segments[OF n(1), of quad] assms
  have ids: "\<forall>i<length knot - 1. idx (spline crv ! i) = int i" by auto
  have start: "Find crv t = Inr (spline crv ! 0, 0)" if "t \<le> 0" for t
    using Find_at_start[OF one that] .
  have fin: "Find crv t = Inr (spline crv ! (length knot - 2), 1)"
    if "real (length knot - 1) \<le> t" for t
    using Find_at_end[OF one, of t] that n(2) two by simp
  have "\<forall>t. \<exists>i<length knot - 1. \<exists>u. 0 \<le> u \<and> u \<le> 1 \<and> Find crv t = Inr (spline crv ! i, u)"
    using Find_clamped[OF one] n(2) by simp
  then show ?thesis using n(2) ids start fin by simp
qed

theorem Find_boundaries_witness:
  "\<exists>crv. CubicSpline2D no_roots example_knots = Inr crv \<and>
     Find crv 0 = Inr (spline crv ! 0, 0) \<and>
     Find crv 2 = Inr (spline crv ! 1, 1) \<and>
     Find crv (- 1) = Inr (spline crv ! 0, 0) \<and>
     Find crv 5 = Inr (spline crv ! 1, 1)"
proof -
  have h: "2 \<le> length example_knots" by (simp add: example_knots_def)
  from fitted_segments[OF h, of no_roots]
  obtain crv where c: "CubicSpline2D no_roots example_knots = Inr crv" by blast
  have l: "length example_knots - 1 = 2" "length example_knots - 2 = 1"
    by (simp_all add: example_knots_def)
  note f = Find_boundaries[OF c, unfolded l]
  have "Find crv 0 = Inr (spline crv ! 0, 0)" using f by blast
  moreover have "Find crv 2 = Inr (spline crv ! 1, 1)" using f by simp
  moreover have "Find crv (- 1) = Inr (spline crv ! 0, 0)" using f by simp
  moreover have "Find crv 5 = Inr (spline crv ! 1, 1)" using f by simp
  ultimately show ?thesis using c by blast
qed

section \<open>Failures of the solver\<close>

text \<open>
  Claim C7, as stated: \<open>TriDiagonal\<close> fails exactly when the row count differs from the
  length of the right-hand side, \<open>m[0].X \<noteq> 0\<close>, \<open>m[n-1].Z \<noteq> 0\<close>, \<open>m[0].Y = 0\<close> or some
  denominator of the forward elimination is zero. On the empty system none of these
  conditions holds, and the call still fails: the expression \<open>m[0]\<close> of the second check
  is outside the slice.
\<close>

theorem TriDiagonal_empty_counterexample:
  "TriDiagonal_fl round64 [] [] = Inl IndexOutOfRange \<and> \<not> rejected_fl round64 [] []"
  by (simp add: TriDiagonal_fl_def rejected_fl_def)

text \<open>
  Claim C7, amended: for a system with at least one row, \<open>TriDiagonal\<close> fails, returning
  no value, exactly when one of the listed conditions holds, and it returns a value
  exactly when none of them holds. The denominators are the ones the program computes:
  the statement holds for every rounding \<open>fl\<close> of the operations, so for binary64
  (\<open>round64\<close>) and for exact arithmetic (the identity) alike.
\<close>

theorem TriDiagonal_fl_fails_iff:
  assumes "m \<noteq> []"
  shows "((\<exists>e. TriDiagonal_fl fl m rhs = Inl e) \<longleftrightarrow> rejected_fl fl m rhs) \<and>
         ((\<exists>x. TriDiagonal_fl fl m rhs = Inr x) \<longleftrightarrow> \<not> rejected_fl fl m rhs)"
  unfolding TriDiagonal_fl_cases[OF assms] rejected_fl_def using assms by auto

text \<open>
  In binary64 the second system is rejected, for its computed denominator is zero,
  and the first one is solved, for its computed denominator is \<open>2^-53\<close>.
\<close>

theorem TriDiagonal_fl_fails_iff_witness:
  "rows_third \<noteq> [] \<and> rejected_fl round64 rows_third [1, 1] \<and>
   (\<exists>e. TriDiagonal_fl round64 rows_third [1, 1] = Inl e) \<and>
   rows49 \<noteq> [] \<and> \<not> rejected_fl round64 rows49 [1, 2] \<and>
   (\<exists>x. TriDiagonal_fl round64 rows49 [1, 2] = Inr x)"
proof -
  have ne: "rows_third \<noteq> []" "rows49 \<noteq> []" by (simp_all add: rows_third_def rows49_def)
  have "\<exists>i. 1 \<le> i \<and> i < length rows_third \<and> denominator_fl round64 rows_third i = 0"
    using denominator_rows_third by (intro exI[of _ 1]) (simp add: rows_third_def)
  then have rej: "rejected_fl round64 rows_third [1, 1]"
    using ne by (simp add: rejected_fl_def)
  have "\<not> (1 \<le> i \<and> i < length rows49 \<and> denominator_fl round64 rows49 i = 0)" for i
  proof (cases "i = 1")
    case True
    then show ?thesis using denominator_rows49 by simp
  next
    case False
    then show ?thesis by (auto simp: rows49_def)
  qed
  then have acc: "\<not> rejected_fl round64 rows49 [1, 2]"
    by (simp add: rejected_fl_def rows49_def)
  from TriDiagonal_fl_fails_iff[OF ne(1), of round64 "[1, 1]"] rej
  have a: "\<exists>e. TriDiagonal_fl round64 rows_third [1, 1] = Inl e" by blast
  from TriDiagonal_fl_fails_iff[OF ne(2), of round64 "[1, 2]"] acc
  have b: "\<exists>x. TriDiagonal_fl round64 rows49 [1, 2] = Inr x" by blast
  show ?thesis using ne rej acc a b by blast
qed

section \<open>The distance query of the curve\<close>

text \<open>
  Claim C9. \<open>Evaluate\<close> returns \<open>0\<close> for every point and every curve.
\<close>

theorem Evaluate_zero: "Evaluate crv pt = 0"
  by (simp add: Evaluate_def)

text \<open>
  Claim C10. With a nil \<open>partialRender\<close> channel \<open>Render\<close> never returns: the sends are
  skipped, so the pass reaches \<open>close(partialRender)\<close>, which panics on the nil channel,
  unless it has panicked before.
\<close>

theorem Render_nil_channel:
  "Render rnd camera raycast sched r ctx state None fullRender = Inl CloseOfNilChannel \<or>
   Render rnd camera raycast sched r ctx state None fullRender = Inl IndexOutOfRange \<or>
   Render rnd camera raycast sched r ctx state None fullRender = Inl MakeNegativeLen"
proof -
  let ?img = "fullRender\<lparr>Pix := set_alpha 3 (Pix fullRender)\<rparr>"
  let ?count = "fst (Bounds_Size ?img) * snd (Bounds_Size ?img)"
  show ?thesis
  proof (cases "update_pixelsRand rnd ?count r")
    case (Inl e)
    then have "e = MakeNegativeLen"
      by (auto simp: update_pixelsRand_def Let_def split: if_splits)
    then show ?thesis using Inl by (simp add: Render_def Let_def)
  next
    case (Inr r')
    let ?rs = "map (\<lambda>i. work raycast r' (jobs (camera state (Bounds_Size ?img))
                   (Bounds_Size ?img) (pixelsRand r') ! i)) sched"
    show ?thesis
    proof (cases "collector ctx ?rs 0 ?img None")
      case (Inl e)
      then have "e = IndexOutOfRange" by (rule collector_panic)
      then show ?thesis using Inl \<open>update_pixelsRand rnd ?count r = Inr r'\<close>
        by (simp add: Render_def Let_def)
    next
      case (Inr res)
      obtain img' ch' err where res: "res = (img', ch', err)" by (cases res) auto
      have "ch' = None" using Inr unfolding res by (rule collector_nil)
      then show ?thesis using Inr res \<open>update_pixelsRand rnd ?count r = Inr r'\<close>
        by (simp add: Render_def Let_def chan_close_def)
    qed
  qed
qed

end
